theory Spec2Isabelle
  imports Main "HOL-Library.AList" "HOL-Library.Char_ord" "HOL-Library.List_Lexorder"
begin

section \<open>Python primitives used by both utilities\<close>

text \<open>
  Exceptions are values. Only the exception classes that the two scripts can meet on the
  paths modelled here are listed.
\<close>

datatype py_error = IndexError | KeyError | ValueError | AttributeError | TypeError
  | JSONDecodeError | OSError | UnicodeEncodeError

text \<open>
  A character of the model is one character of a Python string: below 128 an ASCII
  character; from 128 on it stands for the lone surrogate (U+DC80 to U+DCFF) by which
  \<^verbatim>\<open>os.listdir\<close> hands on a byte of a file name that does not decode. Python orders both
  kinds by code point, as the model orders characters. \<^verbatim>\<open>str.encode('utf-8')\<close>, and so a
  write to a file opened with \<^verbatim>\<open>encoding='utf-8'\<close>, raises UnicodeEncodeError exactly when
  the string holds a surrogate.
\<close>

definition utf8_encodable :: "string \<Rightarrow> bool" where
  "utf8_encodable s = list_all (\<lambda>c. (of_char c :: nat) < 128) s"

text \<open>The logging subsystem is external; a log is the list of records written to it.\<close>

datatype log_level = LDebug | LInfo | LWarning | LError

type_synonym log = "(log_level \<times> string) list"

definition newline :: char where
  "newline = CHR 0x0A"

text \<open>\<^verbatim>\<open>s.split(sep)\<close> for a one-character separator: never the empty list.\<close>

fun split_py :: "char \<Rightarrow> string \<Rightarrow> string list" where
  "split_py sep [] = [[]]"
| "split_py sep (c # cs) =
     (if c = sep then [] # split_py sep cs
      else (case split_py sep cs of
              [] \<Rightarrow> [[c]]
            | seg # segs \<Rightarrow> (c # seg) # segs))"

text \<open>\<^verbatim>\<open>xs[i]\<close> for a non-negative literal index: IndexError out of range.\<close>

definition py_index :: "'a list \<Rightarrow> nat \<Rightarrow> py_error + 'a" where
  "py_index xs i = (if i < length xs then Inr (xs ! i) else Inl IndexError)"

text \<open>\<^verbatim>\<open>str(n)\<close> for a non-negative integer.\<close>

definition digit_char :: "nat \<Rightarrow> char" where
  "digit_char d = char_of (48 + d)"

fun str_nat :: "nat \<Rightarrow> string" where
  "str_nat n = (if n < 10 then [digit_char n] else str_nat (n div 10) @ [digit_char (n mod 10)])"

declare str_nat.simps [simp del]

subsection \<open>posixpath and glob\<close>

definition path_join :: "string \<Rightarrow> string \<Rightarrow> string" where
  "path_join a b =
     (if b \<noteq> [] \<and> hd b = CHR ''/'' then b
      else if a = [] \<or> last a = CHR ''/'' then a @ b
      else a @ CHR ''/'' # b)"

definition basename :: "string \<Rightarrow> string" where
  "basename p = rev (takeWhile (\<lambda>c. c \<noteq> CHR ''/'') (rev p))"

text \<open>
  \<^verbatim>\<open>posixpath.split\<close>: the part after the last slash, and the part before it without its
  trailing slashes (unless it consists of slashes only).
\<close>

definition rstrip_sep :: "string \<Rightarrow> string" where
  "rstrip_sep s = rev (dropWhile (\<lambda>c. c = CHR ''/'') (rev s))"

definition path_split :: "string \<Rightarrow> string \<times> string" where
  "path_split p =
     (let tail = basename p;
          head = take (length p - length tail) p
      in (if head \<noteq> [] \<and> \<not> list_all (\<lambda>c. c = CHR ''/'') head then rstrip_sep head else head,
          tail))"

text \<open>\<^verbatim>\<open>glob.has_magic\<close>: the string holds one of the characters \<^verbatim>\<open>* ? [\<close>.\<close>

definition has_magic :: "string \<Rightarrow> bool" where
  "has_magic s = list_ex (\<lambda>c. c = CHR ''*'' \<or> c = CHR ''?'' \<or> c = CHR ''['') s"

text \<open>
  The shell patterns of the scripts use only literal characters, \<^verbatim>\<open>?\<close> and \<^verbatim>\<open>*\<close>.
  \<^verbatim>\<open>?\<close> matches any one character (not only a digit), \<^verbatim>\<open>*\<close> any run of characters.
\<close>

datatype pat = Lit char | AnyChar | AnyRun

definition compile_pat :: "string \<Rightarrow> pat list" where
  "compile_pat s =
     map (\<lambda>c. if c = CHR ''?'' then AnyChar else if c = CHR ''*'' then AnyRun else Lit c) s"

fun fnmatch :: "pat list \<Rightarrow> string \<Rightarrow> bool" where
  "fnmatch [] s = (s = [])"
| "fnmatch (Lit c # ps) [] = False"
| "fnmatch (Lit c # ps) (x # xs) = (x = c \<and> fnmatch ps xs)"
| "fnmatch (AnyChar # ps) [] = False"
| "fnmatch (AnyChar # ps) (x # xs) = fnmatch ps xs"
| "fnmatch (AnyRun # ps) [] = fnmatch ps []"
| "fnmatch (AnyRun # ps) (x # xs) = (fnmatch ps (x # xs) \<or> fnmatch (AnyRun # ps) xs)"

definition ishidden :: "string \<Rightarrow> bool" where
  "ishidden p = (p \<noteq> [] \<and> hd p = CHR ''.'')"

text \<open>
  A file system maps a directory path to its entries (name and content) in the order the
  directory lists them; that order is the platform's, so it is part of the input.
\<close>

type_synonym filesys = "string \<Rightarrow> (string \<times> string) list"

definition listdir :: "filesys \<Rightarrow> string \<Rightarrow> string list" where
  "listdir fs d = map fst (fs d)"

definition glob1 :: "string list \<Rightarrow> string \<Rightarrow> string list" where
  "glob1 names pattern =
     filter (fnmatch (compile_pat pattern))
       (if ishidden pattern then names else filter (\<lambda>x. \<not> ishidden x) names)"

text \<open>
  \<^verbatim>\<open>glob.glob(pathname)\<close> for a path name whose last component holds a wildcard, as all
  path names of the scripts do. The path name is split; a directory part that itself holds
  wildcards is expanded first (\<open>expand\<close> gives the directories it stands for, which
  depends on the tree of directories, outside the model); each directory is listed, hidden
  names are dropped unless the pattern is hidden too, and each match is joined to its
  directory. \<open>glob_entries\<close> keeps directory and name apart.
\<close>

definition glob_entries ::
  "(string \<Rightarrow> string list) \<Rightarrow> filesys \<Rightarrow> string \<Rightarrow> (string \<times> string) list" where
  "glob_entries expand fs pathname =
     (case path_split pathname of
        (dirname, pattern) \<Rightarrow>
          concat (map (\<lambda>d. map (\<lambda>name. (d, name)) (glob1 (listdir fs d) pattern))
                    (if dirname \<noteq> [] \<and> dirname \<noteq> pathname \<and> has_magic dirname
                     then expand dirname else [dirname])))"

definition glob :: "(string \<Rightarrow> string list) \<Rightarrow> filesys \<Rightarrow> string \<Rightarrow> string list" where
  "glob expand fs pathname =
     map (\<lambda>(d, name). path_join d name) (glob_entries expand fs pathname)"

text \<open>
  The directory that is listed for \<^verbatim>\<open>os.path.join(d, pattern)\<close> when \<open>d\<close> has no
  wildcard and the pattern no slash: \<open>d\<close> without its trailing slashes.
\<close>

definition glob_dirname :: "string \<Rightarrow> string" where
  "glob_dirname d = fst (path_split (path_join d []))"

section \<open>Report publisher (report\_host.py)\<close>

subsection \<open>update\_landing\_page\<close>

text \<open>
  \<^verbatim>\<open>basename.split('_')[2].split('.')[0]\<close>: each index can raise IndexError.
\<close>

definition trading_date_of :: "string \<Rightarrow> py_error + string" where
  "trading_date_of bn =
     (case py_index (split_py CHR ''_'' bn) 2 of
        Inl e \<Rightarrow> Inl e
      | Inr seg \<Rightarrow> py_index (split_py CHR ''.'' seg) 0)"

definition parse_warning :: "string \<Rightarrow> py_error \<Rightarrow> log_level \<times> string" where
  "parse_warning bn e =
     (LWarning, ''Could not parse trading date from filename '' @ bn @ '': list index out of range'')"

text \<open>
  A Python dict keeps insertion order and overwrites in place: an association list with
  \<^const>\<open>AList.update\<close>. The loop over the globbed paths either stores the path under its
  date token or, when the token cannot be parsed, logs a warning and goes on.
\<close>

type_synonym daily = "(string \<times> string) list"

fun scan_files :: "string list \<Rightarrow> daily \<Rightarrow> log \<Rightarrow> daily \<times> log" where
  "scan_files [] d lg = (d, lg)"
| "scan_files (filepath # rest) d lg =
     (case trading_date_of (basename filepath) of
        Inr trading_date \<Rightarrow> scan_files rest (AList.update trading_date filepath d) lg
      | Inl e \<Rightarrow> scan_files rest d (lg @ [parse_warning (basename filepath) e]))"

text \<open>
  \<^verbatim>\<open>sorted(daily.keys(), reverse=True)[:5]\<close>. Python compares strings by code point,
  a proper prefix being smaller: the lexicographic order on \<^typ>\<open>char list\<close>.
\<close>

definition sorted_days :: "daily \<Rightarrow> string list" where
  "sorted_days d = take 5 (rev (sort (map fst d)))"

text \<open>
  One list item per selected day. \<open>label\<close> stands for the library calls
  \<^verbatim>\<open>datetime.strptime(day, "%Y%m%d").strftime("%d %b %Y")\<close>; when they raise, the raw
  token is shown. The lookup \<^verbatim>\<open>daily[day]\<close> stands outside the try block.
\<close>

definition li_item :: "string \<Rightarrow> string \<Rightarrow> string \<Rightarrow> string" where
  \<open>li_item role report_file link_text =
     ''<li><a href="'' @ report_file @ ''">'' @ link_text @ '' '' @ role
       @ '' Report</a></li>'' @ [newline]\<close>

definition link_text_of :: "(string \<Rightarrow> py_error + string) \<Rightarrow> string \<Rightarrow> string" where
  "link_text_of label day = (case label day of Inr t \<Rightarrow> t | Inl e \<Rightarrow> day)"

fun link_items ::
  "(string \<Rightarrow> py_error + string) \<Rightarrow> string \<Rightarrow> daily \<Rightarrow> string list \<Rightarrow> py_error + string list"
where
  "link_items label role d [] = Inr []"
| "link_items label role d (day # days) =
     (case map_of d day of
        None \<Rightarrow> Inl KeyError
      | Some filepath \<Rightarrow>
          (case link_items label role d days of
             Inl e \<Rightarrow> Inl e
           | Inr items \<Rightarrow>
               Inr (li_item role (basename filepath) (link_text_of label day) # items)))"

text \<open>The page template; \<open>unlines\<close> ends every line with a line feed.\<close>

definition unlines :: "string list \<Rightarrow> string" where
  "unlines ls = concat (map (\<lambda>l. l @ [newline]) ls)"

definition landing_head :: string where
  \<open>landing_head = unlines
    [''<!DOCTYPE html>'',
     ''<html lang="en">'',
     ''<head>'',
     ''  <meta charset="UTF-8">'',
     ''  <title>ZT-3 Stock Screener Reports</title>'',
     ''  <style>'',
     ''      body { font-family: 'Segoe UI', sans-serif; background-color: #f8f9fa; color: #212529; padding: 20px; }'',
     ''      .container { max-width: 900px; margin: auto; background: #fff; padding: 30px; border-radius: 8px; box-shadow: 0 2px 10px rgba(0,0,0,0.1); }'',
     ''      h1, h2 { text-align: center; }'',
     ''      ul { list-style: none; padding: 0; }'',
     ''      li { margin: 10px 0; }'',
     ''      a { color: #007bff; text-decoration: none; }'',
     ''      a:hover { text-decoration: underline; }'',
     ''      .section { margin-top: 30px; }'',
     ''  </style>'',
     ''</head>'',
     ''<body>'',
     ''  <div class="container">'',
     ''    <h1>ZT-3 Stock Screener Reports</h1>'']\<close>

definition landing_section :: "string \<Rightarrow> string \<Rightarrow> string" where
  \<open>landing_section role links_html =
     unlines
       [''    <div class="section">'',
        ''      <h2>Latest 5 Trading Days '' @ role @ '' Reports</h2>'',
        ''      <ul>'',
        ''        '' @ (if links_html \<noteq> [] then links_html
                       else ''<li>No '' @ role @ '' Reports Available</li>''),
        ''      </ul>'',
        ''    </div>'']\<close>

definition landing_html :: "string \<Rightarrow> string \<Rightarrow> string" where
  \<open>landing_html success_links_html failure_links_html =
     landing_head @ landing_section ''Success'' success_links_html
       @ landing_section ''Failure'' failure_links_html
       @ unlines [''  </div>'', ''</body>''] @ ''</html>''\<close>

text \<open>
  What the publisher reads from outside: the configured report directory, the project root
  (the directory of the script), the expansion of directory names with wildcards, the date
  formatting of the standard library, and the outcomes of the operations that can fail (a
  copy, opening the index for writing, a git command), as functions of what is attempted.
\<close>

record pub_env =
  report_dir :: string
  project_root :: string
  expand_dir :: "string \<Rightarrow> string list"
  date_label :: "string \<Rightarrow> py_error + string"
  copy_ok :: "string \<Rightarrow> bool"
  index_writable :: bool
  git_ok :: "string list \<Rightarrow> bool"
  now_text :: string

record pub_state =
  files :: filesys
  logs :: log
  commands :: "string list list"

definition DOCS_DIR :: "pub_env \<Rightarrow> string" where
  "DOCS_DIR env = path_join (project_root env) ''docs''"

definition write_file :: "filesys \<Rightarrow> string \<Rightarrow> string \<Rightarrow> string \<Rightarrow> filesys" where
  "write_file fs d name content = fs(d := AList.update name content (fs d))"

text \<open>
  The scan of one role: glob the \<^emph>\<open>report directory\<close> of the configuration, collect the
  date-to-file dict, pick the days. The source writes this block twice, once per role.
\<close>

definition role_files :: "pub_env \<Rightarrow> filesys \<Rightarrow> string \<Rightarrow> string list" where
  "role_files env fs prefix =
     glob (expand_dir env) fs (path_join (report_dir env) (prefix @ ''_report_????????.html''))"

text \<open>
  The page build. An exception leaves the function with the state reached so far: none is
  raised before the index file is opened; when the file cannot be opened nothing is
  written; when it is opened it is truncated, and the one write then either stores the
  whole page or, the page not being encodable, raises and leaves the file empty.
\<close>

definition update_landing_page ::
  "pub_env \<Rightarrow> pub_state \<Rightarrow> (py_error \<times> pub_state) + pub_state" where
  "update_landing_page env st =
     (let success_files = role_files env (files st) ''success'';
          (daily_success, lg1) = scan_files success_files [] (logs st);
          sorted_success = sorted_days daily_success
      in case link_items (date_label env) ''Success'' daily_success sorted_success of
           Inl e \<Rightarrow> Inl (e, st\<lparr>logs := lg1\<rparr>)
         | Inr success_items \<Rightarrow>
             (let failure_files = role_files env (files st) ''failure'';
                  (daily_failure, lg2) = scan_files failure_files [] lg1;
                  sorted_failure = sorted_days daily_failure
              in case link_items (date_label env) ''Failure'' daily_failure sorted_failure of
                   Inl e \<Rightarrow> Inl (e, st\<lparr>logs := lg2\<rparr>)
                 | Inr failure_items \<Rightarrow>
                     (let html = landing_html (concat success_items) (concat failure_items);
                          index_filepath = path_join (DOCS_DIR env) ''index.html''
                      in if \<not> index_writable env then Inl (OSError, st\<lparr>logs := lg2\<rparr>)
                         else if \<not> utf8_encodable html
                         then Inl (UnicodeEncodeError,
                                   st\<lparr>files := write_file (files st) (DOCS_DIR env) ''index.html'' [],
                                      logs := lg2\<rparr>)
                         else Inr (st\<lparr>files := write_file (files st) (DOCS_DIR env) ''index.html'' html,
                                     logs := lg2 @ [(LInfo, ''Landing page updated at: '' @ index_filepath)]\<rparr>))))"

subsection \<open>sync\_reports\_to\_docs\<close>

text \<open>
  The glob is evaluated once, before the loop. A copy that raises is logged and the loop
  goes on.
\<close>

fun sync_loop :: "pub_env \<Rightarrow> (string \<times> string) list \<Rightarrow> pub_state \<Rightarrow> pub_state" where
  "sync_loop env [] st = st"
| "sync_loop env ((d, name) # rest) st =
     (let html_file = path_join d name;
          dest_file = path_join (DOCS_DIR env) (basename html_file)
      in case (if copy_ok env html_file then map_of (files st d) name else None) of
           Some content \<Rightarrow>
             sync_loop env rest
               (st\<lparr>files := write_file (files st) (DOCS_DIR env) (basename html_file) content,
                   logs := logs st @ [(LInfo, ''Synced '' @ html_file @ '' to '' @ dest_file)]\<rparr>)
         | None \<Rightarrow>
             sync_loop env rest
               (st\<lparr>logs := logs st @ [(LError, ''Error syncing report '' @ html_file @ '' to docs'')]\<rparr>))"

definition sync_reports_to_docs :: "pub_env \<Rightarrow> pub_state \<Rightarrow> pub_state" where
  "sync_reports_to_docs env st =
     sync_loop env
       (glob_entries (expand_dir env) (files st) (path_join (report_dir env) ''*.html'')) st"

subsection \<open>run\_git\_command and publish\_both\_reports\<close>

definition join_words :: "string list \<Rightarrow> string" where
  "join_words ws = (case ws of [] \<Rightarrow> [] | w # rest \<Rightarrow> w @ concat (map (\<lambda>x. CHR '' '' # x) rest))"

definition run_git_command :: "pub_env \<Rightarrow> string list \<Rightarrow> pub_state \<Rightarrow> bool \<times> pub_state" where
  "run_git_command env command_list st =
     (let st1 = st\<lparr>logs := logs st @ [(LInfo, ''Running command: '' @ join_words command_list)],
                   commands := commands st @ [command_list]\<rparr>
      in if git_ok env command_list then (True, st1)
         else (False, st1\<lparr>logs := logs st1 @ [(LError, ''Git command failed'')]\<rparr>))"

definition relpath :: "string \<Rightarrow> string \<Rightarrow> string" where
  "relpath p start =
     (if take (length start + 1) p = start @ ''/'' then drop (length start + 1) p else p)"

definition add_command :: "pub_env \<Rightarrow> filesys \<Rightarrow> string list" where
  "add_command env fs =
     [''git'', ''add'']
       @ map (\<lambda>f. relpath f (project_root env))
           (glob (expand_dir env) fs (path_join (DOCS_DIR env) ''*.html''))"

definition commit_command :: "pub_env \<Rightarrow> string list" where
  "commit_command env = [''git'', ''commit'', ''-m'', ''Update GitHub Pages reports: '' @ now_text env]"

definition push_command :: "string list" where
  "push_command = [''git'', ''push'']"

definition say :: "log_level \<Rightarrow> string \<Rightarrow> pub_state \<Rightarrow> pub_state" where
  "say lvl msg st = st\<lparr>logs := logs st @ [(lvl, msg)]\<rparr>"

text \<open>
  The two parameters are the paths given on the command line. An exception of the page
  build leaves the function before any git command.
\<close>

definition publish_both_reports ::
  "pub_env \<Rightarrow> string \<Rightarrow> string option \<Rightarrow> pub_state \<Rightarrow> (py_error \<times> pub_state) + pub_state" where
  "publish_both_reports env success_filepath failure_filepath st =
     (case update_landing_page env (sync_reports_to_docs env st) of
        Inl raised \<Rightarrow> Inl raised
      | Inr st2 \<Rightarrow>
          (let (added, st3) = run_git_command env (add_command env (files st2)) st2
           in if added then
                (let (committed, st4) = run_git_command env (commit_command env) st3
                 in if committed then
                      (let (pushed, st5) = run_git_command env push_command st4
                       in if pushed
                          then Inr (say LInfo ''Reports published successfully via GitHub Pages in a single commit.'' st5)
                          else Inr (say LError ''Git push failed for reports.'' st5))
                    else Inr (say LError ''Git commit failed for reports.'' st4))
              else Inr (say LError ''Git add failed for reports.'' st3)))"

text \<open>The command line: \<open>argv\<close> includes the script name.\<close>

definition main_publish ::
  "pub_env \<Rightarrow> string list \<Rightarrow> pub_state \<Rightarrow> (py_error \<times> pub_state) + pub_state" where
  "main_publish env argv st =
     (if length argv < 2
      then Inr (say LError ''Usage: python report_host.py path/to/success_report.html [path/to/failure_report.html]'' st)
      else publish_both_reports env (argv ! 1) (if length argv \<ge> 3 then Some (argv ! 2) else None) st)"

text \<open>The landing page as a function of the discovered files of one role.\<close>

definition daily_of :: "string list \<Rightarrow> daily" where
  "daily_of found = fst (scan_files found [] [])"

definition days_of :: "string list \<Rightarrow> string list" where
  "days_of found = sorted_days (daily_of found)"

text \<open>
  Well-formed report names: a role without underscore, \<^verbatim>\<open>_report_\<close>, eight decimal
  digits, \<^verbatim>\<open>.html\<close>. \<open>date_value\<close> reads a digit string as a number.
\<close>

definition is_digit :: "char \<Rightarrow> bool" where
  "is_digit c = (c \<in> set ''0123456789'')"

definition date_token :: "string \<Rightarrow> bool" where
  "date_token ds = (length ds = 8 \<and> list_all is_digit ds)"

definition report_name :: "string \<Rightarrow> string \<Rightarrow> string" where
  "report_name role ds = role @ ''_report_'' @ ds @ ''.html''"

fun date_value :: "string \<Rightarrow> nat" where
  "date_value [] = 0"
| "date_value (c # cs) = (of_char c - 48) * 10 ^ length cs + date_value cs"

definition entry_of :: "(string \<Rightarrow> py_error + string) \<Rightarrow> string \<Rightarrow> daily \<Rightarrow> string \<Rightarrow> string" where
  "entry_of label role d day =
     li_item role (basename (case map_of d day of Some filepath \<Rightarrow> filepath | None \<Rightarrow> []))
       (link_text_of label day)"

definition items_of :: "(string \<Rightarrow> py_error + string) \<Rightarrow> string \<Rightarrow> string list \<Rightarrow> string list" where
  "items_of label role found =
     (case link_items label role (daily_of found) (days_of found) of
        Inr items \<Rightarrow> items
      | Inl e \<Rightarrow> [])"

definition page_html :: "pub_env \<Rightarrow> filesys \<Rightarrow> string" where
  "page_html env fs =
     landing_html (concat (items_of (date_label env) ''Success'' (role_files env fs ''success'')))
       (concat (items_of (date_label env) ''Failure'' (role_files env fs ''failure'')))"

text \<open>
  A concrete installation used in examples: the project lives in \<^verbatim>\<open>/srv/zt3\<close>, the
  reports are configured to be in \<^verbatim>\<open>reports\<close>, \<open>git commit\<close> fails and every other
  operation succeeds. In \<open>docs_only_fs\<close> the docs folder holds a success report that the
  report directory does not hold, and the report directory holds one file whose eight
  characters are not digits.
\<close>

definition example_env :: pub_env where
  "example_env =
     \<lparr>report_dir = ''reports'', project_root = ''/srv/zt3'', expand_dir = (\<lambda>d. []),
      date_label = (\<lambda>day. Inl ValueError), copy_ok = (\<lambda>p. True), index_writable = True,
      git_ok = (\<lambda>c. take 2 c \<noteq> [''git'', ''commit'']), now_text = ''2025-04-30 18:00:00''\<rparr>"

definition docs_only_fs :: filesys where
  "docs_only_fs =
     (\<lambda>d. if d = ''/srv/zt3/docs'' then [(''success_report_20250430.html'', ''<html/>'')]
          else if d = ''reports'' then [(''failure_report_2025.abc.html'', ''<html/>'')]
          else [])"

section \<open>Instrument validator (utils/validate\_isins.py)\<close>

subsection \<open>validate\_instrument\_key\<close>

text \<open>
  What one call of \<^verbatim>\<open>requests.get\<close> can give: a response with its status code and its
  body as \<^verbatim>\<open>response.json()\<close> reads it (\<open>None\<close> when the body is not JSON and the call
  raises), a \<^verbatim>\<open>requests\<close> exception (timeout, connection error), or any other exception.
\<close>

datatype json = JNull | JBool bool | JNum int | JStr string | JArr "json list"
  | JObj "(string \<times> json) list"

datatype http_outcome = Response int "json option" | RequestError | UnexpectedError

text \<open>\<^verbatim>\<open>x.get(key, default)\<close>: only a dict has the method.\<close>

definition dict_get :: "json \<Rightarrow> string \<Rightarrow> json \<Rightarrow> py_error + json" where
  "dict_get x key dflt =
     (case x of
        JObj kvs \<Rightarrow> (case map_of kvs key of Some v \<Rightarrow> Inr v | None \<Rightarrow> Inr dflt)
      | _ \<Rightarrow> Inl AttributeError)"

text \<open>\<^verbatim>\<open>x[0]\<close> on a parsed JSON value.\<close>

definition subscript0 :: "json \<Rightarrow> py_error + json" where
  "subscript0 x =
     (case x of
        JArr [] \<Rightarrow> Inl IndexError
      | JArr (y # ys) \<Rightarrow> Inr y
      | JStr [] \<Rightarrow> Inl IndexError
      | JStr (c # cs) \<Rightarrow> Inr (JStr [c])
      | JObj kvs \<Rightarrow> Inl KeyError
      | _ \<Rightarrow> Inl TypeError)"

text \<open>
  The try block of the 400 branch:
  \<^verbatim>\<open>response.json().get('errors', [{}])[0].get('message', response.text[:100])\<close>.
\<close>

definition bad_request_reason :: "json option \<Rightarrow> py_error + json" where
  "bad_request_reason body =
     (case body of
        None \<Rightarrow> Inl JSONDecodeError
      | Some error_data \<Rightarrow>
          (case dict_get error_data ''errors'' (JArr [JObj []]) of
             Inl e \<Rightarrow> Inl e
           | Inr errors \<Rightarrow>
               (case subscript0 errors of
                  Inl e \<Rightarrow> Inl e
                | Inr first \<Rightarrow> dict_get first ''message'' (JStr ''response text''))))"

text \<open>
  One pass through the loop body. \<open>Failed\<close> stands for the five places that log and then
  run \<^verbatim>\<open>if attempt == 0: sleep(3); continue\<close> followed by \<^verbatim>\<open>return False\<close>. In the 400
  branch only \<^verbatim>\<open>json.JSONDecodeError\<close> is caught next to the parse; any other exception
  of the parse leaves the branch and is caught by \<^verbatim>\<open>except Exception\<close> of the loop body.
\<close>

datatype attempt_result = Returns bool | Failed

definition handle_outcome :: "http_outcome \<Rightarrow> attempt_result" where
  "handle_outcome outcome =
     (case outcome of
        RequestError \<Rightarrow> Failed
      | UnexpectedError \<Rightarrow> Failed
      | Response status_code body \<Rightarrow>
          if status_code = 200 then
            (case body of
               None \<Rightarrow> Failed
             | Some data \<Rightarrow>
                 (case dict_get data ''status'' JNull of
                    Inl e \<Rightarrow> Failed
                  | Inr status \<Rightarrow> if status = JStr ''success'' then Returns True else Failed))
          else if status_code = 429 then Failed
          else if status_code = 404 then Returns False
          else if status_code = 400 then
            (case bad_request_reason body of
               Inr error_msg \<Rightarrow> Returns False
             | Inl e \<Rightarrow> if e = JSONDecodeError then Returns False else Failed)
          else Failed)"

text \<open>
  The loop \<^verbatim>\<open>for attempt in range(2)\<close>. \<open>get attempt\<close> is what the request of that attempt
  gives; the trace records every request sent and every sleep.
\<close>

datatype event = Request nat | Sleep nat

fun attempts :: "(nat \<Rightarrow> http_outcome) \<Rightarrow> nat list \<Rightarrow> event list \<Rightarrow> bool \<times> event list" where
  "attempts get [] tr = (False, tr)"
| "attempts get (attempt # rest) tr =
     (case handle_outcome (get attempt) of
        Returns b \<Rightarrow> (b, tr @ [Request attempt])
      | Failed \<Rightarrow>
          if attempt = 0 then attempts get rest (tr @ [Request attempt, Sleep 3])
          else (False, tr @ [Request attempt]))"

definition validate_instrument_key :: "(nat \<Rightarrow> http_outcome) \<Rightarrow> bool \<times> event list" where
  "validate_instrument_key get = attempts get [0, 1] []"

definition requests_sent :: "event list \<Rightarrow> nat" where
  "requests_sent tr = length (filter (\<lambda>e. case e of Request n \<Rightarrow> True | Sleep s \<Rightarrow> False) tr)"

subsection \<open>The timestamp of the notification\<close>

record datetime =
  dt_year :: nat
  dt_month :: nat
  dt_day :: nat
  dt_hour :: nat
  dt_minute :: nat

definition date_of :: "datetime \<Rightarrow> nat \<times> nat \<times> nat" where
  "date_of t = (dt_year t, dt_month t, dt_day t)"

text \<open>
  The clock and the time zone database are outside the program: the lookup of
  \<^verbatim>\<open>Asia/Kolkata\<close> may raise, \<open>now_in\<close> is \<^verbatim>\<open>datetime.now(tz)\<close> and \<open>strftime\<close> the
  formatting of the library.
\<close>

record clock_env =
  tz_lookup :: "py_error + string"
  now_in :: "string \<Rightarrow> datetime"
  now_utc :: datetime
  strftime :: "datetime \<Rightarrow> string \<Rightarrow> string"

definition now_formatted_str :: "clock_env \<Rightarrow> string \<times> log" where
  "now_formatted_str env =
     (case tz_lookup env of
        Inr ist_tz \<Rightarrow>
          (let now_ist = now_in env ist_tz;
               today_ist_date = date_of now_ist
           in if date_of now_ist = today_ist_date
              then (strftime env now_ist ''Today at %I:%M %p'', [])
              else (strftime env now_ist ''%d %b %Y, %I:%M %p'', []))
      | Inl e \<Rightarrow>
          (strftime env (now_utc env) ''%d %b %Y, %H:%M UTC'',
           [(LError, ''Error getting/formatting IST time'')]))"

subsection \<open>Harvesting the results and saving the valid list\<close>

record stock =
  symbol :: string
  isin :: string

record result_entry = stock +
  instrument_key :: string
  error_msg :: "string option"

definition instrument_key_of :: "string \<Rightarrow> string" where
  "instrument_key_of i = ''NSE'' @ ''_'' @ ''EQ'' @ ''|'' @ i"

definition result_of :: "stock \<Rightarrow> string option \<Rightarrow> result_entry" where
  "result_of s e =
     \<lparr>symbol = symbol s, isin = isin s, instrument_key = instrument_key_of (isin s), error_msg = e\<rparr>"

text \<open>
  A future either gives the verdict of validate\_instrument\_key or raises. The worker
  threads are outside the model: what the coordinating thread sees is the list of futures
  in completion order, and the interrupt flag after some number of them.
\<close>

datatype completion = Validated bool | RaisedError string

record results =
  valid :: "result_entry list"
  invalid :: "result_entry list"

definition harvest_one :: "results \<Rightarrow> nat \<times> stock \<times> completion \<Rightarrow> results" where
  "harvest_one res fut =
     (case fut of (index, s, c) \<Rightarrow>
        (case c of
           Validated is_valid \<Rightarrow>
             if is_valid then res\<lparr>valid := valid res @ [result_of s None]\<rparr>
             else res\<lparr>invalid := invalid res @ [result_of s None]\<rparr>
         | RaisedError e \<Rightarrow> res\<lparr>invalid := invalid res @ [result_of s (Some e)]\<rparr>))"

definition harvest :: "(nat \<times> stock \<times> completion) list \<Rightarrow> nat option \<Rightarrow> results" where
  "harvest completed interrupted_after =
     foldl harvest_one \<lparr>valid = [], invalid = []\<rparr>
       (case interrupted_after of None \<Rightarrow> completed | Some k \<Rightarrow> take k completed)"

text \<open>
  The CSV file is kept as the rows handed to the csv writer (their serialisation is the
  library's). A store maps a path to the rows of the file there, if there is one. Opening
  the file for writing and removing it can fail; the code logs that and goes on.
\<close>

type_synonym csv_store = "string \<Rightarrow> string list list option"

definition csv_rows :: "result_entry list \<Rightarrow> string list list" where
  "csv_rows vs = [''symbol'', ''isin''] # map (\<lambda>s. [symbol s, isin s]) vs"

definition save_valid_list ::
  "bool \<Rightarrow> bool \<Rightarrow> string \<Rightarrow> result_entry list \<Rightarrow> csv_store \<Rightarrow> csv_store \<times> log" where
  "save_valid_list open_ok remove_ok valid_stock_list_file vs store =
     (if vs \<noteq> [] then
        (if open_ok
         then (store(valid_stock_list_file \<mapsto> csv_rows vs),
               [(LInfo, ''Saved '' @ str_nat (length vs) @ '' valid stocks to '' @ valid_stock_list_file)])
         else (store, [(LError, ''Failed to save valid stock list to '' @ valid_stock_list_file)]))
      else
        (case store valid_stock_list_file of
           None \<Rightarrow> (store, [(LWarning, ''No valid stocks found.'')])
         | Some old \<Rightarrow>
             if remove_ok
             then (store(valid_stock_list_file := None),
                   [(LWarning, ''No valid stocks found.''),
                    (LInfo, ''Removed existing '' @ valid_stock_list_file)])
             else (store, [(LWarning, ''No valid stocks found.''),
                           (LWarning, ''Could not remove existing '' @ valid_stock_list_file)])))"

subsection \<open>send\_stocklist\_to\_discord\<close>

record embed =
  title :: string
  description :: string
  color :: nat
  embed_fields :: "(string \<times> string \<times> bool) list"
  footer :: "string option"

definition MAX_CHARS_PER_DESC :: nat where
  "MAX_CHARS_PER_DESC = 3800"

definition MAX_LINES_PER_DESC :: nat where
  "MAX_LINES_PER_DESC = 45"

definition invalid_line :: "nat \<Rightarrow> result_entry \<Rightarrow> string" where
  "invalid_line i s = str_nat (i + 1) @ ''. '' @ symbol s @ '' ('' @ isin s @ '')'' @ [newline]"

definition invalid_embed :: "nat \<Rightarrow> nat \<Rightarrow> nat \<Rightarrow> string \<Rightarrow> embed" where
  "invalid_embed n total_parts part_num desc =
     \<lparr>title = ''Invalid Stock List ('' @ str_nat n @ '' Total)''
         @ (if total_parts > 1 then '' - Part '' @ str_nat part_num @ ''/'' @ str_nat total_parts else []),
      description = desc, color = 0xFF0000, embed_fields = [], footer = None\<rparr>"

text \<open>
  The loop over \<^verbatim>\<open>enumerate(invalid_stocks)\<close>: the state is the list of embeds, the
  running description and the part number.
\<close>

fun invalid_loop ::
  "nat \<Rightarrow> nat \<Rightarrow> nat \<Rightarrow> result_entry list \<Rightarrow> embed list \<Rightarrow> string \<Rightarrow> nat
     \<Rightarrow> embed list \<times> string \<times> nat" where
  "invalid_loop n total_parts i [] embeds cur part_num = (embeds, cur, part_num)"
| "invalid_loop n total_parts i (s # rest) embeds cur part_num =
     (let line = invalid_line i s
      in if (length cur + length line > MAX_CHARS_PER_DESC \<and> cur \<noteq> [])
            \<or> count_list cur newline \<ge> MAX_LINES_PER_DESC
         then invalid_loop n total_parts (Suc i) rest
                (embeds @ [invalid_embed n total_parts part_num cur]) line (part_num + 1)
         else invalid_loop n total_parts (Suc i) rest embeds (cur @ line) part_num)"

definition invalid_embeds :: "result_entry list \<Rightarrow> embed list" where
  "invalid_embeds invalid_stocks =
     (if invalid_stocks = [] then []
      else
        (let n = length invalid_stocks;
             total_parts = (n + MAX_LINES_PER_DESC - 1) div MAX_LINES_PER_DESC
         in case invalid_loop n total_parts 0 invalid_stocks [] [] 1 of
              (embeds, cur, part_num) \<Rightarrow>
                if cur \<noteq> [] then embeds @ [invalid_embed n total_parts part_num cur] else embeds))"

definition summary_embed ::
  "result_entry list \<Rightarrow> result_entry list \<Rightarrow> nat \<Rightarrow> string \<Rightarrow> embed" where
  "summary_embed valid_stocks invalid_stocks total_checked footer_text =
     \<lparr>title = ''Stock List Validation Summary'',
      description =
        (if valid_stocks = [] \<and> invalid_stocks = []
         then ''Checked '' @ str_nat total_checked @ '' stocks. No valid or invalid stocks found (unexpected).''
         else if invalid_stocks \<noteq> []
         then ''Checked '' @ str_nat total_checked @ '' stocks. Found issues.''
         else ''Checked '' @ str_nat total_checked @ '' stocks. All entries are valid.''),
      color = (if valid_stocks = [] \<and> invalid_stocks = [] then 0x808080
               else if invalid_stocks \<noteq> [] then 0xFF0000 else 0x00FF00),
      embed_fields = [(''Valid Stocks'', str_nat (length valid_stocks), True),
                (''Invalid/Error Stocks'', str_nat (length invalid_stocks), True)],
      footer = Some footer_text\<rparr>"

text \<open>
  The embeds are sent in slices of ten, \<^verbatim>\<open>embeds_to_send[start:end]\<close>; every slice is
  posted whether or not an earlier post failed.
\<close>

definition message_batches :: "embed list \<Rightarrow> embed list list" where
  "message_batches embeds_to_send =
     (let max_embeds_per_message = 10;
          num_messages = (length embeds_to_send + max_embeds_per_message - 1) div max_embeds_per_message
      in filter (\<lambda>embed_chunk. embed_chunk \<noteq> [])
           (map (\<lambda>i. take max_embeds_per_message (drop (i * max_embeds_per_message) embeds_to_send))
              [0..<num_messages]))"

definition send_stocklist_to_discord ::
  "result_entry list \<Rightarrow> result_entry list \<Rightarrow> nat \<Rightarrow> string \<Rightarrow> string
     \<Rightarrow> (string \<times> embed list) list" where
  "send_stocklist_to_discord valid_stocks invalid_stocks total_checked footer_text webhook_url =
     (if webhook_url = [] then []
      else map (\<lambda>embed_chunk. (''Stocklist Validator'', embed_chunk))
             (message_batches
                (summary_embed valid_stocks invalid_stocks total_checked footer_text
                   # invalid_embeds invalid_stocks)))"

text \<open>
  run\_validation: without credentials or without stocks nothing is written or sent;
  otherwise the harvested results are saved and reported.
\<close>

record validation_env =
  api_headers :: "string option"
  stocks :: "stock list"
  completed :: "(nat \<times> stock \<times> completion) list"
  interrupted_after :: "nat option"
  valid_stock_list_file :: string
  open_ok :: bool
  remove_ok :: bool
  footer_text :: string
  webhook_url :: string

definition run_validation ::
  "validation_env \<Rightarrow> csv_store \<Rightarrow> csv_store \<times> (string \<times> embed list) list" where
  "run_validation env store =
     (case api_headers env of
        None \<Rightarrow> (store, [])
      | Some h \<Rightarrow>
          if stocks env = [] then (store, [])
          else
            (let res = harvest (completed env) (interrupted_after env);
                 saved = save_valid_list (open_ok env) (remove_ok env) (valid_stock_list_file env)
                           (valid res) store
             in (fst saved,
                 send_stocklist_to_discord (valid res) (invalid res) (length (stocks env))
                   (footer_text env) (webhook_url env))))"

text \<open>The lines of the invalid list and their grouping, as lists of lines.\<close>

fun lines_from :: "nat \<Rightarrow> result_entry list \<Rightarrow> string list" where
  "lines_from i [] = []"
| "lines_from i (s # rest) = invalid_line i s # lines_from (Suc i) rest"

fun chunk_lines :: "string list \<Rightarrow> string list \<Rightarrow> string list list" where
  "chunk_lines [] cur = (if concat cur \<noteq> [] then [cur] else [])"
| "chunk_lines (l # ls) cur =
     (if (length (concat cur) + length l > MAX_CHARS_PER_DESC \<and> concat cur \<noteq> [])
         \<or> count_list (concat cur) newline \<ge> MAX_LINES_PER_DESC
      then cur # chunk_lines ls [l]
      else chunk_lines ls (cur @ [l]))"

text \<open>
  An example run: three stocks, the first two validated, the third one rejected (its key
  gave 404), no interrupt, every file operation succeeding.
\<close>

definition example_stocks :: "stock list" where
  "example_stocks =
     [\<lparr>symbol = ''RELIANCE'', isin = ''INE002A01018''\<rparr>,
      \<lparr>symbol = ''TCS'', isin = ''INE467B01029''\<rparr>,
      \<lparr>symbol = ''GHOST'', isin = ''INE000000000''\<rparr>]"

definition example_validation_env :: "bool list \<Rightarrow> validation_env" where
  "example_validation_env verdicts =
     \<lparr>api_headers = Some ''Bearer token'', stocks = example_stocks,
      completed = zip [0, 1, 2] (zip example_stocks (map Validated verdicts)),
      interrupted_after = None, valid_stock_list_file = ''valid_stock_list.csv'',
      open_ok = True, remove_ok = True, footer_text = ''Took 1.00 seconds'',
      webhook_url = ''https://discord.example/webhook''\<rparr>"

text \<open>When the loop starts a new chunk, and what a chunk within the budgets is.\<close>

definition flush_now :: "string \<Rightarrow> string \<Rightarrow> bool" where
  "flush_now cur line =
     ((length cur + length line > MAX_CHARS_PER_DESC \<and> cur \<noteq> [])
      \<or> count_list cur newline \<ge> MAX_LINES_PER_DESC)"

definition chunk_ok :: "string list \<Rightarrow> bool" where
  "chunk_ok c = (c \<noteq> [] \<and> length c \<le> MAX_LINES_PER_DESC
                 \<and> (length (concat c) \<le> MAX_CHARS_PER_DESC \<or> length c = 1))"

text \<open>An invalid entry whose symbol alone is as long as the character budget.\<close>

definition long_entry :: result_entry where
  "long_entry = result_of \<lparr>symbol = replicate 3800 CHR ''A'', isin = ''INE000000000''\<rparr> None"

text \<open>
  An invalid entry whose symbol holds 45 line feeds, and three invalid entries of which the
  first two fit into one description and the third does not.
\<close>

definition multiline_entry :: result_entry where
  "multiline_entry = result_of \<lparr>symbol = replicate 45 newline, isin = ''INE000000000''\<rparr> None"

definition long_entries :: "result_entry list" where
  "long_entries =
     [result_of \<lparr>symbol = replicate 1000 CHR ''A'', isin = ''INE000000001''\<rparr> None,
      result_of \<lparr>symbol = replicate 1000 CHR ''B'', isin = ''INE000000002''\<rparr> None,
      result_of \<lparr>symbol = replicate 2000 CHR ''C'', isin = ''INE000000003''\<rparr> None]"

text \<open>
  A report directory with one file whose name ends, before the extension, with a byte that
  does not decode (0xFF): Python lists it with a lone surrogate in that place.
\<close>

definition undecodable_name :: string where
  "undecodable_name = ''success_report_2025043'' @ [CHR 0xFF] @ ''.html''"

definition undecodable_fs :: filesys where
  "undecodable_fs = (\<lambda>d. if d = ''reports'' then [(undecodable_name, ''<html/>'')] else [])"

section \<open>Properties of the report publisher\<close>

subsection \<open>Parsing file names and collecting the dict\<close>

lemma split_py_nonempty: "split_py sep s \<noteq> []"
  by (induction s) (auto split: list.splits)

lemma split_py_no_sep: "sep \<notin> set s \<Longrightarrow> split_py sep s = [s]"
  by (induction s) auto

lemma split_py_append: "sep \<notin> set a \<Longrightarrow> split_py sep (a @ sep # b) = a # split_py sep b"
  by (induction a) auto

lemma trading_date_of_wellformed:
  assumes "CHR ''_'' \<notin> set role" "CHR ''_'' \<notin> set ds" "CHR ''.'' \<notin> set ds"
  shows "trading_date_of (role @ ''_report_'' @ ds @ ''.html'') = Inr ds"
proof -
  have 1: "split_py CHR ''_'' (role @ ''_report_'' @ ds @ ''.html'') = [role, ''report'', ds @ ''.html'']"
  proof -
    have "split_py CHR ''_'' (role @ CHR ''_'' # (''report'' @ CHR ''_'' # (ds @ ''.html'')))
          = role # split_py CHR ''_'' (''report'' @ CHR ''_'' # (ds @ ''.html''))"
      using assms(1) by (rule split_py_append)
    also have "split_py CHR ''_'' (''report'' @ CHR ''_'' # (ds @ ''.html''))
          = ''report'' # split_py CHR ''_'' (ds @ ''.html'')"
      by (rule split_py_append) simp
    also have "split_py CHR ''_'' (ds @ ''.html'') = [ds @ ''.html'']"
      using assms(2) by (intro split_py_no_sep) simp
    finally show ?thesis by simp
  qed
  have 2: "split_py CHR ''.'' (ds @ ''.html'') = ds # split_py CHR ''.'' ''html''"
    using split_py_append [OF assms(3), of "''html''"] by simp
  show ?thesis
    unfolding trading_date_of_def 1 by (simp add: 2 py_index_def)
qed

lemma scan_files_log:
  "snd (scan_files fs d lg) =
     lg @ map (\<lambda>f. parse_warning (basename f) IndexError)
            (filter (\<lambda>f. isl (trading_date_of (basename f))) fs)"
  by (induction fs arbitrary: d lg) (auto split: sum.splits simp: parse_warning_def)

lemma scan_files_skips:
  "fst (scan_files fs d lg) =
     fst (scan_files (filter (\<lambda>f. \<not> isl (trading_date_of (basename f))) fs) d lg')"
  by (induction fs arbitrary: d lg lg') (auto split: sum.splits)

lemma scan_files_distinct:
  "distinct (map fst d) \<Longrightarrow> distinct (map fst (fst (scan_files fs d lg)))"
  by (induction fs arbitrary: d lg) (auto split: sum.splits simp: distinct_update)

lemma scan_files_lookup:
  "map_of (fst (scan_files fs d lg)) t =
     (case filter (\<lambda>f. trading_date_of (basename f) = Inr t) fs of
        [] \<Rightarrow> map_of d t
      | g # gs \<Rightarrow> Some (last (g # gs)))"
proof (induction fs arbitrary: d lg)
  case Nil
  then show ?case by simp
next
  case (Cons f fs)
  show ?case
  proof (cases "trading_date_of (basename f)")
    case (Inl e)
    then show ?thesis using Cons.IH [of d] by (simp split: list.splits)
  next
    case (Inr t')
    then show ?thesis using Cons.IH [of "AList.update t' f d" lg]
      by (auto simp: update_conv' split: list.splits)
  qed
qed

lemma sorted_days_length: "length (sorted_days d) \<le> 5"
  by (simp add: sorted_days_def)

lemma sorted_days_subset: "set (sorted_days d) \<subseteq> fst ` set d"
  unfolding sorted_days_def using set_take_subset [of 5 "rev (sort (map fst d))"] by auto

lemma sorted_days_desc:
  "distinct (map fst d) \<Longrightarrow> sorted_wrt (\<lambda>a b. b < a) (sorted_days d)"
  unfolding sorted_days_def
  by (intro sorted_wrt_take) (simp add: sorted_wrt_rev strict_sorted_iff)

lemma link_items_total:
  "set days \<subseteq> fst ` set d \<Longrightarrow>
   link_items label role d days =
     Inr (map (\<lambda>day. li_item role (basename (the (map_of d day))) (link_text_of label day)) days)"
proof (induction days)
  case Nil
  then show ?case by simp
next
  case (Cons day days)
  then have "day \<in> fst ` set d" by simp
  then obtain fp where "map_of d day = Some fp"
    by (metis domD dom_map_of_conv_image_fst)
  with Cons show ?case by simp
qed

text \<open>
  C4. For every sequence of discovered files of one role and every date token carried by
  one of them, the date-to-file dict maps the token to the file discovered last among those
  carrying it: the last write wins.
\<close>

theorem last_discovered_file_wins:
  assumes "f \<in> set found" and "trading_date_of (basename f) = Inr t"
  shows "map_of (daily_of found) t
           = Some (last (filter (\<lambda>g. trading_date_of (basename g) = Inr t) found))"
proof -
  from assms have "f \<in> set (filter (\<lambda>g. trading_date_of (basename g) = Inr t) found)"
    by simp
  then obtain g gs where "filter (\<lambda>g. trading_date_of (basename g) = Inr t) found = g # gs"
    by (cases "filter (\<lambda>g. trading_date_of (basename g) = Inr t) found") auto
  then show ?thesis
    unfolding daily_of_def by (simp add: scan_files_lookup)
qed

theorem last_discovered_file_wins_witness:
  "map_of (daily_of [''r/success_report_2025.abc.html'', ''r/success_report_20250430.html'',
                     ''r/success_report_2025.xyz.html'']) ''2025''
     = Some ''r/success_report_2025.xyz.html''"
proof -
  have a: "trading_date_of (basename ''r/success_report_2025.abc.html'') = Inr ''2025''"
    by (simp add: trading_date_of_def basename_def py_index_def)
  have b: "trading_date_of (basename ''r/success_report_2025.xyz.html'') = Inr ''2025''"
    by (simp add: trading_date_of_def basename_def py_index_def)
  have c: "trading_date_of (basename ''r/success_report_20250430.html'') = Inr ''20250430''"
    by (simp add: trading_date_of_def basename_def py_index_def)
  show ?thesis
    using last_discovered_file_wins [of "''r/success_report_2025.abc.html''"
        "[''r/success_report_2025.abc.html'', ''r/success_report_20250430.html'',
          ''r/success_report_2025.xyz.html'']" "''2025''"]
    by (simp add: a b c)
qed

subsection \<open>Digit strings: string order is numeric order\<close>

lemma is_digit_code: "is_digit c \<Longrightarrow> 48 \<le> (of_char c :: nat) \<and> (of_char c :: nat) \<le> 57"
  unfolding is_digit_def by (elim disjE | simp)+

lemma is_digit_less:
  assumes "is_digit x" "is_digit y"
  shows "(x < y) = ((of_char x :: nat) - 48 < of_char y - 48)"
  using is_digit_code [OF assms(1)] is_digit_code [OF assms(2)]
  unfolding less_char_def by linarith

lemma is_digit_eq:
  assumes "is_digit x" "is_digit y"
  shows "(x = y) = ((of_char x :: nat) - 48 = of_char y - 48)"
proof -
  have "(x = y) = ((of_char x :: nat) = of_char y)" by simp
  then show ?thesis
    using is_digit_code [OF assms(1)] is_digit_code [OF assms(2)] by linarith
qed

lemma date_value_bound: "list_all is_digit cs \<Longrightarrow> date_value cs < 10 ^ length cs"
proof (induction cs)
  case Nil
  then show ?case by simp
next
  case (Cons c cs)
  then have v: "(of_char c :: nat) - 48 \<le> 9" and r: "date_value cs < 10 ^ length cs"
    using is_digit_code [of c] by auto
  have "((of_char c :: nat) - 48) * 10 ^ length cs \<le> 9 * 10 ^ length cs"
    using v by (rule mult_le_mono1)
  with r have "(of_char c - 48) * 10 ^ length cs + date_value cs < 9 * 10 ^ length cs + 10 ^ length cs"
    by linarith
  then show ?case by simp
qed

lemma weighted_less:
  fixes a b p u v :: nat
  assumes "a < p" "b < p"
  shows "(u * p + a < v * p + b) = (u < v \<or> u = v \<and> a < b)"
proof (cases "u < v")
  case True
  then have "Suc u * p \<le> v * p" by (intro mult_le_mono1) simp
  with assms True show ?thesis by simp
next
  case False
  show ?thesis
  proof (cases "u = v")
    case True
    then show ?thesis by simp
  next
    case False
    with \<open>\<not> u < v\<close> have "v < u" by simp
    then have "Suc v * p \<le> u * p" by (intro mult_le_mono1) simp
    with assms \<open>v < u\<close> show ?thesis by simp
  qed
qed

lemma digits_less_iff:
  "length s = length t \<Longrightarrow> list_all is_digit s \<Longrightarrow> list_all is_digit t \<Longrightarrow>
   (s < t) = (date_value s < date_value t)"
proof (induction s t rule: list_induct2)
  case Nil
  then show ?case by simp
next
  case (Cons x xs y ys)
  then have dx: "is_digit x" and dy: "is_digit y"
    and bx: "date_value xs < 10 ^ length ys" and by': "date_value ys < 10 ^ length ys"
    and ih: "(xs < ys) = (date_value xs < date_value ys)"
    using date_value_bound [of xs] date_value_bound [of ys] by auto
  have "(x # xs < y # ys) = (x < y \<or> x = y \<and> xs < ys)"
    by simp
  also have "\<dots> = ((of_char x :: nat) - 48 < of_char y - 48
      \<or> (of_char x :: nat) - 48 = of_char y - 48 \<and> date_value xs < date_value ys)"
    unfolding ih is_digit_less [OF dx dy] is_digit_eq [OF dx dy] ..
  also have "\<dots> = (((of_char x :: nat) - 48) * 10 ^ length ys + date_value xs
      < (of_char y - 48) * 10 ^ length ys + date_value ys)"
    using weighted_less [OF bx by'] by simp
  finally show ?case using Cons.hyps by simp
qed

lemma date_token_plain: "date_token ds \<Longrightarrow> CHR ''_'' \<notin> set ds \<and> CHR ''.'' \<notin> set ds"
proof -
  assume "date_token ds"
  then have "\<forall>c \<in> set ds. 48 \<le> (of_char c :: nat) \<and> (of_char c :: nat) \<le> 57"
    using is_digit_code by (auto simp: date_token_def list_all_iff)
  then show ?thesis by fastforce
qed

lemma scan_files_keys:
  assumes "t \<in> fst ` set (daily_of found)"
  shows "\<exists>f \<in> set found. trading_date_of (basename f) = Inr t"
proof -
  from assms have "map_of (daily_of found) t \<noteq> None"
    by (simp add: map_of_eq_None_iff)
  then have "filter (\<lambda>f. trading_date_of (basename f) = Inr t) found \<noteq> []"
    unfolding daily_of_def by (auto simp: scan_files_lookup split: list.splits)
  then show ?thesis
    by (simp add: filter_empty_conv)
qed

subsection \<open>Globbing a directory without wildcards\<close>

lemma has_magic_append: "has_magic (a @ b) = (has_magic a \<or> has_magic b)"
  by (simp add: has_magic_def)

lemma has_magic_slashes: "list_all (\<lambda>c. c = CHR ''/'') s \<Longrightarrow> \<not> has_magic s"
  by (induction s) (auto simp: has_magic_def)

lemma rstrip_sep_decomp:
  "\<exists>t. s = rstrip_sep s @ t \<and> list_all (\<lambda>c. c = CHR ''/'') t"
proof -
  have "rev s = takeWhile (\<lambda>c. c = CHR ''/'') (rev s) @ dropWhile (\<lambda>c. c = CHR ''/'') (rev s)"
    by simp
  then have "s = rev (dropWhile (\<lambda>c. c = CHR ''/'') (rev s)) @ rev (takeWhile (\<lambda>c. c = CHR ''/'') (rev s))"
    by (metis rev_append rev_rev_ident)
  moreover have "list_all (\<lambda>c. c = CHR ''/'') (rev (takeWhile (\<lambda>c. c = CHR ''/'') (rev s)))"
    by (simp add: list_all_iff) (meson set_takeWhileD)
  ultimately show ?thesis unfolding rstrip_sep_def by blast
qed

lemma has_magic_rstrip: "has_magic (rstrip_sep s) = has_magic s"
proof -
  obtain t where t: "s = rstrip_sep s @ t" "list_all (\<lambda>c. c = CHR ''/'') t"
    using rstrip_sep_decomp by blast
  have "has_magic s = has_magic (rstrip_sep s @ t)" using t(1) by simp
  also have "\<dots> = has_magic (rstrip_sep s)"
    using has_magic_slashes [OF t(2)] by (simp add: has_magic_append)
  finally show ?thesis by simp
qed

text \<open>The joined path is a head that is empty or ends with a slash, followed by the pattern.\<close>

lemma path_join_head:
  assumes "CHR ''/'' \<notin> set pat"
  shows "path_join d pat = path_join d [] @ pat"
    and "path_join d [] = [] \<or> last (path_join d []) = CHR ''/''"
  using assms by (cases pat; auto simp: path_join_def)+

lemma basename_head_append:
  assumes "CHR ''/'' \<notin> set pat" and "h = [] \<or> last h = CHR ''/''"
  shows "basename (h @ pat) = pat"
proof -
  have "takeWhile (\<lambda>c. c \<noteq> CHR ''/'') (rev h) = []"
    using assms(2) by (cases h rule: rev_cases) auto
  moreover have "takeWhile (\<lambda>c. c \<noteq> CHR ''/'') (rev pat @ rev h)
      = rev pat @ takeWhile (\<lambda>c. c \<noteq> CHR ''/'') (rev h)"
    by (rule takeWhile_append2) (use assms(1) in auto)
  ultimately have "takeWhile (\<lambda>c. c \<noteq> CHR ''/'') (rev pat @ rev h) = rev pat"
    by simp
  then show ?thesis
    by (simp add: basename_def)
qed

lemma path_split_join:
  assumes "CHR ''/'' \<notin> set pat"
  shows "path_split (path_join d pat) = (glob_dirname d, pat)"
proof -
  let ?h = "path_join d []"
  have j: "path_join d pat = ?h @ pat" and h: "?h = [] \<or> last ?h = CHR ''/''"
    using path_join_head [OF assms] by auto
  have b: "basename (?h @ pat) = pat" using assms h by (rule basename_head_append)
  have b0: "basename ?h = []" using basename_head_append [of "[]" ?h] h by simp
  show ?thesis
    unfolding glob_dirname_def j
    by (simp add: path_split_def b b0 Let_def)
qed

lemma has_magic_glob_dirname: "has_magic (glob_dirname d) = has_magic d"
proof -
  let ?h = "path_join d []"
  have b0: "basename ?h = []"
    using basename_head_append [of "[]" ?h] path_join_head(2) [of "[]" d] by simp
  have hm: "has_magic ?h = has_magic d"
    by (auto simp: path_join_def has_magic_def)
  show ?thesis
    unfolding glob_dirname_def
    using hm has_magic_slashes [of ?h]
    by (auto simp: path_split_def b0 Let_def has_magic_rstrip)
qed

lemma glob_entries_plain:
  assumes "\<not> has_magic d" and "CHR ''/'' \<notin> set pat"
  shows "glob_entries expand fs (path_join d pat)
           = map (\<lambda>name. (glob_dirname d, name)) (glob1 (listdir fs (glob_dirname d)) pat)"
  using assms by (simp add: glob_entries_def path_split_join has_magic_glob_dirname)

lemma glob_plain:
  assumes "\<not> has_magic d" and "CHR ''/'' \<notin> set pat"
  shows "glob expand fs (path_join d pat)
           = map (path_join (glob_dirname d)) (glob1 (listdir fs (glob_dirname d)) pat)"
  using assms by (simp add: glob_def glob_entries_plain comp_def)

subsection \<open>The page that update\_landing\_page writes\<close>

lemma scan_files_fst_log: "fst (scan_files fs d lg) = fst (scan_files fs d lg')"
  by (induction fs arbitrary: d lg lg') (auto split: sum.splits)

lemma scan_files_daily: "fst (scan_files found [] lg) = daily_of found"
  unfolding daily_of_def by (rule scan_files_fst_log)

lemma link_items_entries:
  "set days \<subseteq> fst ` set d \<Longrightarrow>
   link_items label role d days = Inr (map (entry_of label role d) days)"
proof (induction days)
  case Nil
  then show ?case by simp
next
  case (Cons day days)
  then have "day \<in> fst ` set d" by simp
  then obtain fp where "map_of d day = Some fp"
    by (metis domD dom_map_of_conv_image_fst)
  with Cons show ?case by (simp add: entry_of_def)
qed

lemma link_items_days:
  "link_items label role (daily_of found) (days_of found)
     = Inr (map (entry_of label role (daily_of found)) (days_of found))"
  unfolding days_of_def by (rule link_items_entries) (rule sorted_days_subset)

lemma items_of_eq:
  "items_of label role found = map (entry_of label role (daily_of found)) (days_of found)"
  by (simp add: items_of_def link_items_days)

lemma daily_of_distinct: "distinct (map fst (daily_of found))"
  unfolding daily_of_def by (rule scan_files_distinct) simp

lemma update_landing_page_result:
  "update_landing_page env st =
     (if \<not> index_writable env
      then Inl (OSError,
                st\<lparr>logs := snd (scan_files (role_files env (files st) ''failure'') []
                                (snd (scan_files (role_files env (files st) ''success'') [] (logs st))))\<rparr>)
      else if \<not> utf8_encodable (page_html env (files st))
      then Inl (UnicodeEncodeError,
                st\<lparr>files := write_file (files st) (DOCS_DIR env) ''index.html'' [],
                   logs := snd (scan_files (role_files env (files st) ''failure'') []
                                (snd (scan_files (role_files env (files st) ''success'') [] (logs st))))\<rparr>)
      else Inr (st\<lparr>files := write_file (files st) (DOCS_DIR env) ''index.html'' (page_html env (files st)),
                  logs := snd (scan_files (role_files env (files st) ''failure'') []
                                (snd (scan_files (role_files env (files st) ''success'') [] (logs st))))
                          @ [(LInfo, ''Landing page updated at: '' @ path_join (DOCS_DIR env) ''index.html'')]\<rparr>))"
proof -
  have s: "link_items (date_label env) ''Success''
             (fst (scan_files (role_files env (files st) ''success'') [] lg))
             (sorted_days (fst (scan_files (role_files env (files st) ''success'') [] lg)))
           = Inr (items_of (date_label env) ''Success'' (role_files env (files st) ''success''))" for lg
    using link_items_days [of "date_label env" "''Success''" "role_files env (files st) ''success''"]
    by (simp add: scan_files_daily items_of_eq days_of_def)
  have f: "link_items (date_label env) ''Failure''
             (fst (scan_files (role_files env (files st) ''failure'') [] lg))
             (sorted_days (fst (scan_files (role_files env (files st) ''failure'') [] lg)))
           = Inr (items_of (date_label env) ''Failure'' (role_files env (files st) ''failure''))" for lg
    using link_items_days [of "date_label env" "''Failure''" "role_files env (files st) ''failure''"]
    by (simp add: scan_files_daily items_of_eq days_of_def)
  show ?thesis
    unfolding update_landing_page_def Let_def case_prod_beta s f page_html_def
    by simp
qed

lemma page_build_raises_iff:
  "isl (update_landing_page env st)
     = (\<not> index_writable env \<or> \<not> utf8_encodable (page_html env (files st)))"
  by (simp add: update_landing_page_result)

subsection \<open>Entries of the landing page\<close>

lemma wellformed_keys:
  assumes wf: "\<forall>f \<in> set found. \<exists>rl ds. CHR ''_'' \<notin> set rl \<and> date_token ds \<and> basename f = report_name rl ds"
    and t: "t \<in> set (days_of found)"
  shows "date_token t"
proof -
  from t have "t \<in> fst ` set (daily_of found)"
    using sorted_days_subset [of "daily_of found"] by (auto simp: days_of_def)
  then obtain f where f: "f \<in> set found" "trading_date_of (basename f) = Inr t"
    using scan_files_keys by blast
  with wf obtain rl ds where rl: "CHR ''_'' \<notin> set rl" "date_token ds" "basename f = report_name rl ds"
    by blast
  then have "trading_date_of (basename f) = Inr ds"
    using trading_date_of_wellformed [of rl ds] date_token_plain [of ds]
    by (simp add: report_name_def)
  with f rl show ?thesis by simp
qed

text \<open>
  C3. For every list of discovered files of a role, the landing page has at most five
  entries for the role, one per selected date token, in strictly descending order of the
  tokens (string order, which for eight-digit tokens is the numeric order).
\<close>

theorem landing_page_entries:
  "length (items_of label role found) \<le> 5
   \<and> items_of label role found = map (entry_of label role (daily_of found)) (days_of found)
   \<and> link_items label role (daily_of found) (days_of found) = Inr (items_of label role found)
   \<and> sorted_wrt (\<lambda>a b. b < a) (days_of found)
   \<and> ((\<forall>f \<in> set found. \<exists>rl ds. CHR ''_'' \<notin> set rl \<and> date_token ds \<and> basename f = report_name rl ds)
        \<longrightarrow> sorted_wrt (\<lambda>a b. date_value b < date_value a) (days_of found))"
proof -
  have len: "length (days_of found) \<le> 5"
    unfolding days_of_def by (rule sorted_days_length)
  have desc: "sorted_wrt (\<lambda>a b. b < a) (days_of found)"
    unfolding days_of_def by (rule sorted_days_desc) (rule daily_of_distinct)
  have num: "sorted_wrt (\<lambda>a b. date_value b < date_value a) (days_of found)"
    if wf: "\<forall>f \<in> set found. \<exists>rl ds. CHR ''_'' \<notin> set rl \<and> date_token ds \<and> basename f = report_name rl ds"
  proof (rule sorted_wrt_mono_rel [OF _ desc])
    fix a b assume a: "a \<in> set (days_of found)" and b: "b \<in> set (days_of found)" and "b < a"
    from wellformed_keys [OF wf a] wellformed_keys [OF wf b]
    have "length b = length a" "list_all is_digit b" "list_all is_digit a"
      by (simp_all add: date_token_def)
    with \<open>b < a\<close> show "date_value b < date_value a"
      using digits_less_iff [of b a] by simp
  qed
  show ?thesis
    using len desc num by (simp add: items_of_eq link_items_days)
qed

theorem landing_page_entries_witness:
  "sorted_wrt (\<lambda>a b. date_value b < date_value a)
     (days_of [''r/success_report_20250430.html'', ''r/success_report_20250502.html''])
   \<and> length (items_of (\<lambda>day. Inl ValueError) ''Success''
        [''r/success_report_20250430.html'', ''r/success_report_20250502.html'']) \<le> 5"
proof -
  have a: "\<exists>rl ds. CHR ''_'' \<notin> set rl \<and> date_token ds
             \<and> basename ''r/success_report_20250430.html'' = report_name rl ds"
    by (rule exI [of _ "''success''"], rule exI [of _ "''20250430''"])
      (simp add: basename_def report_name_def date_token_def is_digit_def)
  have b: "\<exists>rl ds. CHR ''_'' \<notin> set rl \<and> date_token ds
             \<and> basename ''r/success_report_20250502.html'' = report_name rl ds"
    by (rule exI [of _ "''success''"], rule exI [of _ "''20250502''"])
      (simp add: basename_def report_name_def date_token_def is_digit_def)
  have wf: "\<forall>f \<in> set [''r/success_report_20250430.html'', ''r/success_report_20250502.html''].
      \<exists>rl ds. CHR ''_'' \<notin> set rl \<and> date_token ds \<and> basename f = report_name rl ds"
    using a b by simp
  note T = landing_page_entries [of "\<lambda>day. Inl ValueError" "''Success''"
      "[''r/success_report_20250430.html'', ''r/success_report_20250502.html'']"]
  from T have 1: "length (items_of (\<lambda>day. Inl ValueError) ''Success''
        [''r/success_report_20250430.html'', ''r/success_report_20250502.html'']) \<le> 5"
    by (rule conjunct1)
  from T wf have 2: "sorted_wrt (\<lambda>a b. date_value b < date_value a)
     (days_of [''r/success_report_20250430.html'', ''r/success_report_20250502.html''])"
    by (elim conjE impE)
  from 2 1 show ?thesis by (rule conjI)
qed

subsection \<open>Extracting the date token\<close>

text \<open>
  For every file name \<open>role_report_<8 digits>.html\<close> the extracted token is exactly the
  eight digits. A file whose token cannot be parsed is skipped: it adds one warning to the
  log and nothing to the dict. The page build raises exactly when the index file cannot be
  opened for writing or the page cannot be encoded.
\<close>

lemma date_token_extraction:
  "(CHR ''_'' \<notin> set role \<and> date_token ds \<longrightarrow> trading_date_of (report_name role ds) = Inr ds)
   \<and> snd (scan_files found d lg)
       = lg @ map (\<lambda>f. parse_warning (basename f) IndexError)
                (filter (\<lambda>f. isl (trading_date_of (basename f))) found)
   \<and> fst (scan_files found d lg)
       = fst (scan_files (filter (\<lambda>f. \<not> isl (trading_date_of (basename f))) found) d lg)
   \<and> isl (update_landing_page env st)
       = (\<not> index_writable env \<or> \<not> utf8_encodable (page_html env (files st)))"
proof (intro conjI impI)
  assume "CHR ''_'' \<notin> set role \<and> date_token ds"
  then show "trading_date_of (report_name role ds) = Inr ds"
    using trading_date_of_wellformed [of role ds] date_token_plain [of ds]
    by (simp add: report_name_def)
next
  show "snd (scan_files found d lg)
     = lg @ map (\<lambda>f. parse_warning (basename f) IndexError)
              (filter (\<lambda>f. isl (trading_date_of (basename f))) found)"
    by (rule scan_files_log)
next
  show "fst (scan_files found d lg)
     = fst (scan_files (filter (\<lambda>f. \<not> isl (trading_date_of (basename f))) found) d lg)"
    by (rule scan_files_skips)
next
  show "isl (update_landing_page env st)
       = (\<not> index_writable env \<or> \<not> utf8_encodable (page_html env (files st)))"
    by (rule page_build_raises_iff)
qed

subsection \<open>A file name that does not decode\<close>

lemma example_report_dir:
  "\<not> has_magic (report_dir example_env)" "glob_dirname (report_dir example_env) = ''reports''"
  by (simp_all add: example_env_def has_magic_def glob_dirname_def path_split_def path_join_def
      basename_def rstrip_sep_def Let_def)

lemma example_role_files:
  "CHR ''/'' \<notin> set prefix \<Longrightarrow>
   role_files example_env fs prefix
     = map (path_join ''reports'') (glob1 (listdir fs ''reports'') (prefix @ ''_report_????????.html''))"
  using glob_plain [of "report_dir example_env" "prefix @ ''_report_????????.html''"
      "expand_dir example_env" fs] example_report_dir
  by (simp add: role_files_def)

lemma utf8_encodable_set: "utf8_encodable s = (\<forall>c \<in> set s. (of_char c :: nat) < 128)"
  by (simp add: utf8_encodable_def list_all_iff)

lemma landing_html_holds_links:
  "links \<noteq> [] \<Longrightarrow> set links \<subseteq> set (landing_html links other)"
  by (auto simp: landing_html_def landing_section_def unlines_def)

lemma single_file_items:
  "trading_date_of (basename p) = Inr t \<Longrightarrow>
   items_of label role [p] = [li_item role (basename p) (link_text_of label t)]
   \<and> snd (scan_files [p] [] lg) = lg"
  by (simp add: items_of_def days_of_def daily_of_def sorted_days_def)

text \<open>
  C8. The claim says that no file name ever makes the page build raise, and the code
  handles every exception of the parsing. It does not handle this one: a file whose name
  matches the pattern but holds a byte that does not decode is discovered, its name goes
  into the link, and writing the page raises UnicodeEncodeError, the index file being left
  empty.
\<close>

theorem undecodable_name_breaks_page_build:
  "update_landing_page example_env \<lparr>files = undecodable_fs, logs = [], commands = []\<rparr>
     = Inl (UnicodeEncodeError,
            \<lparr>files = write_file undecodable_fs ''/srv/zt3/docs'' ''index.html'' [],
             logs = [], commands = []\<rparr>)"
proof -
  define p where "p = ''reports/'' @ undecodable_name"
  define item where "item = li_item ''Success'' undecodable_name (''2025043'' @ [CHR 0xFF])"
  have s: "role_files example_env undecodable_fs ''success'' = [p]"
    unfolding p_def
    by (simp add: example_role_files listdir_def undecodable_fs_def undecodable_name_def
        glob1_def ishidden_def compile_pat_def path_join_def)
  have f: "role_files example_env undecodable_fs ''failure'' = []"
    by (simp add: example_role_files listdir_def undecodable_fs_def undecodable_name_def
        glob1_def ishidden_def compile_pat_def)
  have b: "basename p = undecodable_name"
    by (simp add: p_def basename_def undecodable_name_def)
  have t: "trading_date_of (basename p) = Inr (''2025043'' @ [CHR 0xFF])"
    unfolding b by (simp add: undecodable_name_def trading_date_of_def py_index_def)
  have lt: "link_text_of (date_label example_env) day = day" for day
    by (simp add: link_text_of_def example_env_def)
  have i: "items_of (date_label example_env) ''Success'' [p] = [item]"
    using single_file_items [OF t, of "date_label example_env" "''Success''" "[]"]
    unfolding b lt item_def by (rule conjunct1)
  have l: "snd (scan_files [p] [] []) = []"
    using single_file_items [OF t, of "date_label example_env" "''Success''" "[]"]
    by (rule conjunct2)
  have e: "items_of (date_label example_env) ''Failure'' [] = []"
    by (simp add: items_of_def daily_of_def days_of_def sorted_days_def)
  have m: "CHR 0xFF \<in> set item"
    by (simp add: item_def li_item_def)
  then have "item \<noteq> []" by auto
  then have "set item \<subseteq> set (landing_html item [])"
    by (rule landing_html_holds_links)
  moreover have "page_html example_env undecodable_fs = landing_html item []"
    unfolding page_html_def s f i e by simp
  ultimately have "CHR 0xFF \<in> set (page_html example_env undecodable_fs)"
    using m by auto
  moreover have "\<not> (of_char (CHR 0xFF) :: nat) < 128" by simp
  ultimately have n: "\<not> utf8_encodable (page_html example_env undecodable_fs)"
    unfolding utf8_encodable_set by blast
  have w: "index_writable example_env" "DOCS_DIR example_env = ''/srv/zt3/docs''"
    by (simp_all add: example_env_def DOCS_DIR_def path_join_def)
  have lg: "snd (scan_files (role_files example_env undecodable_fs ''failure'') []
                 (snd (scan_files (role_files example_env undecodable_fs ''success'') [] []))) = []"
    unfolding s f l by simp
  show ?thesis
    unfolding update_landing_page_result
    using n w by (simp add: lg)
qed

subsection \<open>Which folder the landing page is built from\<close>

lemma example_docs_dir: "DOCS_DIR example_env = ''/srv/zt3/docs''"
  by (simp add: DOCS_DIR_def example_env_def path_join_def)

lemma role_files_plain:
  "\<not> has_magic (report_dir env) \<Longrightarrow> CHR ''/'' \<notin> set prefix \<Longrightarrow>
   role_files env fs prefix
     = map (path_join (glob_dirname (report_dir env)))
         (glob1 (listdir fs (glob_dirname (report_dir env))) (prefix @ ''_report_????????.html''))"
  using glob_plain [of "report_dir env" "prefix @ ''_report_????????.html''" "expand_dir env" fs]
  by (simp add: role_files_def)

lemma page_html_cong:
  "\<not> has_magic (report_dir env) \<Longrightarrow>
   listdir fs (glob_dirname (report_dir env)) = listdir fs' (glob_dirname (report_dir env)) \<Longrightarrow>
   page_html env fs = page_html env fs'"
  by (simp add: page_html_def role_files_plain)

lemma utf8_encodable_append:
  "utf8_encodable (a @ b) = (utf8_encodable a \<and> utf8_encodable b)"
  by (simp add: utf8_encodable_def)

lemma utf8_encodable_head: "utf8_encodable landing_head"
  by (simp add: utf8_encodable_def landing_head_def unlines_def newline_def)

lemma utf8_encodable_section:
  "utf8_encodable role \<Longrightarrow> utf8_encodable (landing_section role links) = utf8_encodable links"
  by (simp add: utf8_encodable_def landing_section_def unlines_def newline_def)

lemma utf8_encodable_landing_html:
  "utf8_encodable (landing_html a b) = (utf8_encodable a \<and> utf8_encodable b)"
proof -
  have "utf8_encodable ''Success''" "utf8_encodable ''Failure''"
    "utf8_encodable (unlines [''  </div>'', ''</body>''])" "utf8_encodable ''</html>''"
    by (simp_all add: utf8_encodable_def unlines_def newline_def)
  then show ?thesis
    by (simp add: landing_html_def utf8_encodable_append utf8_encodable_head
        utf8_encodable_section)
qed

lemma example_page:
  "page_html example_env docs_only_fs
     = landing_html [] (li_item ''Failure'' ''failure_report_2025.abc.html'' ''2025'')"
proof -
  define p where "p = ''reports/failure_report_2025.abc.html''"
  have s: "role_files example_env docs_only_fs ''success'' = []"
    by (simp add: example_role_files listdir_def docs_only_fs_def glob1_def ishidden_def
        compile_pat_def)
  have f: "role_files example_env docs_only_fs ''failure'' = [p]"
    unfolding p_def
    by (simp add: example_role_files listdir_def docs_only_fs_def glob1_def ishidden_def
        compile_pat_def path_join_def)
  have b: "basename p = ''failure_report_2025.abc.html''"
    by (simp add: p_def basename_def)
  have t: "trading_date_of (basename p) = Inr ''2025''"
    unfolding b by (simp add: trading_date_of_def py_index_def)
  have lt: "link_text_of (date_label example_env) day = day" for day
    by (simp add: link_text_of_def example_env_def)
  have i: "items_of (date_label example_env) ''Failure'' [p]
      = [li_item ''Failure'' ''failure_report_2025.abc.html'' ''2025'']"
    using single_file_items [OF t, of "date_label example_env" "''Failure''" "[]"]
    unfolding b lt by (rule conjunct1)
  have e: "items_of (date_label example_env) ''Success'' [] = []"
    by (simp add: items_of_def daily_of_def days_of_def sorted_days_def)
  show ?thesis
    unfolding page_html_def s f i e by simp
qed

lemma example_page_encodable: "utf8_encodable (page_html example_env docs_only_fs)"
  unfolding example_page utf8_encodable_landing_html
  by (simp add: utf8_encodable_def li_item_def newline_def)

text \<open>
  C2 as stated fails: a success report that is only in the docs folder is not discovered,
  and the scan of the report directory accepts eight characters that are not digits.
\<close>

theorem landing_page_scans_docs_counterexample:
  "glob (expand_dir example_env) docs_only_fs
       (path_join (DOCS_DIR example_env) ''success_report_????????.html'')
     = [''/srv/zt3/docs/success_report_20250430.html'']
   \<and> role_files example_env docs_only_fs ''success'' = []
   \<and> items_of (date_label example_env) ''Success'' (role_files example_env docs_only_fs ''success'') = []
   \<and> role_files example_env docs_only_fs ''failure'' = [''reports/failure_report_2025.abc.html'']"
proof -
  have m: "\<not> has_magic ''/srv/zt3/docs''" "glob_dirname ''/srv/zt3/docs'' = ''/srv/zt3/docs''"
    by (simp_all add: has_magic_def glob_dirname_def path_split_def path_join_def
        basename_def rstrip_sep_def Let_def)
  have 1: "glob (expand_dir example_env) docs_only_fs
       (path_join (DOCS_DIR example_env) ''success_report_????????.html'')
     = [''/srv/zt3/docs/success_report_20250430.html'']"
    unfolding example_docs_dir
    using glob_plain [of "''/srv/zt3/docs''" "''success_report_????????.html''"
        "expand_dir example_env" docs_only_fs] m
    by (simp add: glob1_def listdir_def docs_only_fs_def compile_pat_def ishidden_def path_join_def)
  have 2: "role_files example_env docs_only_fs ''success'' = []"
    by (simp add: example_role_files listdir_def docs_only_fs_def glob1_def ishidden_def
        compile_pat_def)
  have 3: "items_of (date_label example_env) ''Success'' [] = []"
    by (simp add: items_of_def daily_of_def days_of_def sorted_days_def)
  have 4: "role_files example_env docs_only_fs ''failure'' = [''reports/failure_report_2025.abc.html'']"
    by (simp add: example_role_files listdir_def docs_only_fs_def glob1_def ishidden_def
        compile_pat_def path_join_def)
  show ?thesis using 1 2 3 4 by simp
qed

text \<open>
  C2, amended. When the configured report directory has no wildcard character in its name,
  update\_landing\_page scans that directory (the folder sync\_reports copies from, named
  without its trailing slashes): the files of a role are the names of that directory
  matching \<^verbatim>\<open><role>_report_????????.html\<close>, and the page depends on no other directory.
  When the index file can be opened and the page can be encoded, the page is written to
  \<^verbatim>\<open>index.html\<close> in the docs folder.
\<close>

theorem landing_page_scans_report_dir:
  assumes "\<not> has_magic (report_dir env)"
  shows "role_files env fs ''success''
       = map (path_join (glob_dirname (report_dir env)))
           (glob1 (listdir fs (glob_dirname (report_dir env))) ''success_report_????????.html'')
     \<and> role_files env fs ''failure''
       = map (path_join (glob_dirname (report_dir env)))
           (glob1 (listdir fs (glob_dirname (report_dir env))) ''failure_report_????????.html'')
     \<and> (listdir fs (glob_dirname (report_dir env)) = listdir fs' (glob_dirname (report_dir env))
          \<longrightarrow> page_html env fs = page_html env fs')
     \<and> (index_writable env \<and> utf8_encodable (page_html env (files st))
          \<longrightarrow> (\<exists>st'. update_landing_page env st = Inr st'
                 \<and> map_of (files st' (DOCS_DIR env)) ''index.html'' = Some (page_html env (files st))))"
proof (intro conjI impI)
  show "role_files env fs ''success''
       = map (path_join (glob_dirname (report_dir env)))
           (glob1 (listdir fs (glob_dirname (report_dir env))) ''success_report_????????.html'')"
    using role_files_plain [OF assms, of "''success''" fs] by simp
next
  show "role_files env fs ''failure''
       = map (path_join (glob_dirname (report_dir env)))
           (glob1 (listdir fs (glob_dirname (report_dir env))) ''failure_report_????????.html'')"
    using role_files_plain [OF assms, of "''failure''" fs] by simp
next
  assume "listdir fs (glob_dirname (report_dir env)) = listdir fs' (glob_dirname (report_dir env))"
  with assms show "page_html env fs = page_html env fs'"
    by (rule page_html_cong)
next
  assume "index_writable env \<and> utf8_encodable (page_html env (files st))"
  then show "\<exists>st'. update_landing_page env st = Inr st'
      \<and> map_of (files st' (DOCS_DIR env)) ''index.html'' = Some (page_html env (files st))"
    by (simp add: update_landing_page_result write_file_def update_conv')
qed

theorem landing_page_scans_report_dir_witness:
  "role_files example_env docs_only_fs ''failure''
     = map (path_join (glob_dirname (report_dir example_env)))
         (glob1 (listdir docs_only_fs (glob_dirname (report_dir example_env)))
            ''failure_report_????????.html'')
   \<and> page_html example_env docs_only_fs
     = page_html example_env (\<lambda>d. if d = ''reports'' then docs_only_fs d else [])
   \<and> (\<exists>st'. update_landing_page example_env \<lparr>files = docs_only_fs, logs = [], commands = []\<rparr> = Inr st'
         \<and> map_of (files st' (DOCS_DIR example_env)) ''index.html''
             = Some (page_html example_env docs_only_fs))"
proof -
  have m: "\<not> has_magic (report_dir example_env)"
    by (rule example_report_dir(1))
  note T = landing_page_scans_report_dir [OF m, of docs_only_fs
      "\<lambda>d. if d = ''reports'' then docs_only_fs d else []"
      "\<lparr>files = docs_only_fs, logs = [], commands = []\<rparr>"]
  have a: "listdir docs_only_fs (glob_dirname (report_dir example_env))
      = listdir (\<lambda>d. if d = ''reports'' then docs_only_fs d else []) (glob_dirname (report_dir example_env))"
    unfolding example_report_dir(2) by (simp add: listdir_def)
  have b: "index_writable example_env
      \<and> utf8_encodable (page_html example_env (files \<lparr>files = docs_only_fs, logs = [], commands = []\<rparr>))"
    using example_page_encodable by (simp add: example_env_def)
  from T have 0: "role_files example_env docs_only_fs ''failure''
     = map (path_join (glob_dirname (report_dir example_env)))
         (glob1 (listdir docs_only_fs (glob_dirname (report_dir example_env)))
            ''failure_report_????????.html'')"
    by (rule conjunct1 [OF conjunct2])
  from T [THEN conjunct2, THEN conjunct2, THEN conjunct1] a
  have 1: "page_html example_env docs_only_fs
     = page_html example_env (\<lambda>d. if d = ''reports'' then docs_only_fs d else [])"
    by (rule mp)
  from T [THEN conjunct2, THEN conjunct2, THEN conjunct2] b
  have "\<exists>st'. update_landing_page example_env \<lparr>files = docs_only_fs, logs = [], commands = []\<rparr> = Inr st'
         \<and> map_of (files st' (DOCS_DIR example_env)) ''index.html''
             = Some (page_html example_env (files \<lparr>files = docs_only_fs, logs = [], commands = []\<rparr>))"
    by (rule mp)
  then have 2: "\<exists>st'. update_landing_page example_env \<lparr>files = docs_only_fs, logs = [], commands = []\<rparr> = Inr st'
         \<and> map_of (files st' (DOCS_DIR example_env)) ''index.html''
             = Some (page_html example_env docs_only_fs)"
    by simp
  from 0 1 2 show ?thesis by (intro conjI)
qed

subsection \<open>Publishing\<close>

lemma sync_loop_commands: "commands (sync_loop env names st) = commands st"
  by (induction env names st rule: sync_loop.induct) (auto simp: Let_def split: option.splits)

lemma sync_commands: "commands (sync_reports_to_docs env st) = commands st"
  by (simp add: sync_reports_to_docs_def sync_loop_commands)

lemma sync_loop_files:
  "d \<noteq> DOCS_DIR env \<Longrightarrow> files (sync_loop env names st) d = files st d"
  by (induction env names st rule: sync_loop.induct)
    (auto simp: Let_def write_file_def split: option.splits)

lemma sync_files:
  "d \<noteq> DOCS_DIR env \<Longrightarrow> files (sync_reports_to_docs env st) d = files st d"
  by (simp add: sync_reports_to_docs_def sync_loop_files)

lemma run_git_command_effect:
  "fst (run_git_command env c st) = git_ok env c
   \<and> files (snd (run_git_command env c st)) = files st
   \<and> commands (snd (run_git_command env c st)) = commands st @ [c]"
  by (simp add: run_git_command_def Let_def)

text \<open>
  C7. In publish\_both\_reports the add, commit and push commands run in that order, each
  only when the one before it succeeded, and nothing else is run: no step is undone.
\<close>

theorem git_steps_halt_at_first_failure:
  assumes "publish_both_reports env success_filepath failure_filepath st = Inr st'"
  shows "commands st' = commands st @
     (if git_ok env (add_command env (files st'))
      then (if git_ok env (commit_command env)
            then [add_command env (files st'), commit_command env, push_command]
            else [add_command env (files st'), commit_command env])
      else [add_command env (files st')])"
proof -
  from assms obtain st2 where
    st2: "update_landing_page env (sync_reports_to_docs env st) = Inr st2"
    by (auto simp: publish_both_reports_def split: sum.splits)
  then have c2: "commands st2 = commands st"
    by (auto simp: update_landing_page_result sync_commands split: if_splits)
  show ?thesis
    using assms c2 run_git_command_effect [of env]
    unfolding publish_both_reports_def st2
    by (auto simp: case_prod_beta Let_def say_def split: if_splits)
qed

lemma publish_returns:
  "index_writable env \<Longrightarrow>
   utf8_encodable (page_html env (files (sync_reports_to_docs env st))) \<Longrightarrow>
   \<exists>st'. publish_both_reports env s f st = Inr st'"
  by (simp add: publish_both_reports_def update_landing_page_result case_prod_beta Let_def)

lemma example_sync_page:
  "page_html example_env
       (files (sync_reports_to_docs example_env \<lparr>files = docs_only_fs, logs = [], commands = []\<rparr>))
     = page_html example_env docs_only_fs"
proof (rule page_html_cong)
  show "\<not> has_magic (report_dir example_env)" by (rule example_report_dir(1))
next
  have "''reports'' \<noteq> DOCS_DIR example_env"
    by (simp add: example_docs_dir)
  then have "files (sync_reports_to_docs example_env \<lparr>files = docs_only_fs, logs = [], commands = []\<rparr>)
      ''reports'' = docs_only_fs ''reports''"
    by (simp add: sync_files)
  then show "listdir (files (sync_reports_to_docs example_env
                \<lparr>files = docs_only_fs, logs = [], commands = []\<rparr>))
        (glob_dirname (report_dir example_env))
      = listdir docs_only_fs (glob_dirname (report_dir example_env))"
    unfolding example_report_dir(2) by (simp add: listdir_def)
qed

theorem git_steps_halt_at_first_failure_witness:
  "\<exists>st'. publish_both_reports example_env ''reports/success_report_20250430.html'' None
            \<lparr>files = docs_only_fs, logs = [], commands = []\<rparr> = Inr st'
         \<and> commands st' = [add_command example_env (files st'), commit_command example_env]"
proof -
  have "index_writable example_env" by (simp add: example_env_def)
  moreover have "utf8_encodable (page_html example_env
      (files (sync_reports_to_docs example_env \<lparr>files = docs_only_fs, logs = [], commands = []\<rparr>)))"
    unfolding example_sync_page by (rule example_page_encodable)
  ultimately obtain st' where st': "publish_both_reports example_env ''reports/success_report_20250430.html'' None
            \<lparr>files = docs_only_fs, logs = [], commands = []\<rparr> = Inr st'"
    using publish_returns by blast
  have a: "git_ok example_env (add_command example_env fs)" for fs
    by (simp add: example_env_def add_command_def)
  have c: "\<not> git_ok example_env (commit_command example_env)"
    by (simp add: example_env_def commit_command_def)
  from git_steps_halt_at_first_failure [OF st']
  have "commands st' = [add_command example_env (files st'), commit_command example_env]"
    by (simp add: a c)
  with st' show ?thesis by blast
qed

text \<open>
  C9. publish\_both\_reports never reads its two path parameters: any two calls in the same
  environment and state give the same result, and so do any two command lines that have at
  least the one required argument.
\<close>

theorem report_path_arguments_unused:
  "publish_both_reports env s f st = publish_both_reports env s' f' st
   \<and> (2 \<le> length argv \<and> 2 \<le> length argv'
        \<longrightarrow> main_publish env argv st = main_publish env argv' st)"
  by (simp add: publish_both_reports_def main_publish_def)

theorem report_path_arguments_unused_witness:
  "\<forall>env st. main_publish env [''report_host.py'', ''reports/success_report_20250430.html''] st
     = main_publish env [''report_host.py'', ''other.html'', ''reports/failure_report_20250430.html''] st"
proof (intro allI)
  fix env st
  have l: "2 \<le> length [''report_host.py'', ''reports/success_report_20250430.html'']
      \<and> 2 \<le> length [''report_host.py'', ''other.html'', ''reports/failure_report_20250430.html'']"
    by simp
  from report_path_arguments_unused [of env "''a''" None st "''b''" None
      "[''report_host.py'', ''reports/success_report_20250430.html'']"
      "[''report_host.py'', ''other.html'', ''reports/failure_report_20250430.html'']", THEN conjunct2] l
  show "main_publish env [''report_host.py'', ''reports/success_report_20250430.html''] st
     = main_publish env [''report_host.py'', ''other.html'', ''reports/failure_report_20250430.html''] st"
    by (rule mp)
qed

section \<open>Properties of the instrument validator\<close>

subsection \<open>Retries of validate\_instrument\_key\<close>

lemma attempts_at_most_two_requests:
  "requests_sent (snd (validate_instrument_key get)) \<le> 2"
  by (simp add: validate_instrument_key_def requests_sent_def split: attempt_result.splits)

lemma not_found_is_final:
  "get 0 = Response 404 body \<Longrightarrow> validate_instrument_key get = (False, [Request 0])"
  by (simp add: validate_instrument_key_def handle_outcome_def)

lemma bad_request_without_json_is_final:
  "get 0 = Response 400 None \<Longrightarrow> validate_instrument_key get = (False, [Request 0])"
  by (simp add: validate_instrument_key_def handle_outcome_def bad_request_reason_def)

lemma bad_request_with_errors_is_final:
  "get 0 = Response 400 (Some (JObj [(''errors'', JArr [JObj [(''message'', JStr m)]])])) \<Longrightarrow>
   validate_instrument_key get = (False, [Request 0])"
  by (simp add: validate_instrument_key_def handle_outcome_def bad_request_reason_def
      dict_get_def subscript0_def)

lemma one_retry_then_invalid:
  "handle_outcome (get 0) = Failed \<Longrightarrow> handle_outcome (get 1) = Failed \<Longrightarrow>
   validate_instrument_key get = (False, [Request 0, Sleep 3, Request 1])"
  by (simp add: validate_instrument_key_def)

text \<open>
  C1. The claim says that a 400 response returns invalid at once, with no retry, as the
  comment \<^verbatim>\<open># Don't retry on 400\<close> of the source does. The code retries a 400 response
  whose JSON body has an empty \<^verbatim>\<open>errors\<close> list: \<^verbatim>\<open>[][0]\<close> raises IndexError, which the
  handler next to the parse does not catch.
\<close>

theorem bad_request_with_empty_errors_is_retried:
  "validate_instrument_key (\<lambda>attempt. Response 400 (Some (JObj [(''errors'', JArr [])])))
     = (False, [Request 0, Sleep 3, Request 1])"
  by (simp add: validate_instrument_key_def handle_outcome_def bad_request_reason_def
      dict_get_def subscript0_def)

subsection \<open>The timestamp\<close>

text \<open>
  C10. Whenever the time zone lookup succeeds, the date of the current time is compared
  with itself, so the timestamp always has the \<^verbatim>\<open>Today at\<close> format; the other format of
  that branch is never produced.
\<close>

theorem timestamp_is_always_today:
  "tz_lookup env = Inr tz \<Longrightarrow>
   now_formatted_str env = (strftime env (now_in env tz) ''Today at %I:%M %p'', [])"
  by (simp add: now_formatted_str_def)

theorem timestamp_is_always_today_witness:
  "now_formatted_str
     \<lparr>tz_lookup = Inr ''Asia/Kolkata'',
      now_in = (\<lambda>tz. \<lparr>dt_year = 2025, dt_month = 4, dt_day = 30, dt_hour = 18, dt_minute = 5\<rparr>),
      now_utc = \<lparr>dt_year = 2025, dt_month = 4, dt_day = 30, dt_hour = 12, dt_minute = 35\<rparr>,
      strftime = (\<lambda>t fmt. fmt)\<rparr>
   = (''Today at %I:%M %p'', [])"
proof -
  have "tz_lookup
     \<lparr>tz_lookup = Inr ''Asia/Kolkata'',
      now_in = (\<lambda>tz. \<lparr>dt_year = 2025, dt_month = 4, dt_day = 30, dt_hour = 18, dt_minute = 5\<rparr>),
      now_utc = \<lparr>dt_year = 2025, dt_month = 4, dt_day = 30, dt_hour = 12, dt_minute = 35\<rparr>,
      strftime = (\<lambda>t fmt. fmt)\<rparr> = Inr ''Asia/Kolkata''"
    by simp
  from timestamp_is_always_today [OF this] show ?thesis by simp
qed

subsection \<open>The saved list of valid stocks\<close>

text \<open>
  C6. When run\_validation gets past its two preconditions (credentials, a non-empty stock
  list), whether or not the harvest was interrupted: with at least one valid entry and the
  file opened, the CSV holds the header \<open>symbol,isin\<close> followed by one row per valid entry
  with its symbol and ISIN only; with no valid entry nothing is written, and an existing
  file is removed when the removal succeeds.
\<close>

theorem valid_list_is_saved:
  assumes "api_headers env = Some h" and "stocks env \<noteq> []"
  shows "let vs = valid (harvest (completed env) (interrupted_after env));
             store' = fst (run_validation env store);
             path = valid_stock_list_file env
         in (vs \<noteq> [] \<and> open_ok env \<longrightarrow>
               store' path = Some ([''symbol'', ''isin''] # map (\<lambda>s. [symbol s, isin s]) vs)
               \<and> length (the (store' path)) = 1 + length vs)
          \<and> (vs = [] \<and> (remove_ok env \<or> store path = None) \<longrightarrow> store' path = None)
          \<and> (vs = [] \<longrightarrow> store' = store \<or> store' = store(path := None))"
  using assms
  by (auto simp: run_validation_def save_valid_list_def csv_rows_def Let_def split: option.splits)

theorem valid_list_is_saved_witness:
  "fst (run_validation (example_validation_env [True, True, False]) (\<lambda>p. None)) ''valid_stock_list.csv''
     = Some [[''symbol'', ''isin''], [''RELIANCE'', ''INE002A01018''], [''TCS'', ''INE467B01029'']]
   \<and> fst (run_validation (example_validation_env [False, False, False])
            (\<lambda>p. if p = ''valid_stock_list.csv'' then Some [[''symbol'', ''isin'']] else None))
         ''valid_stock_list.csv'' = None"
proof -
  have h: "api_headers (example_validation_env v) = Some ''Bearer token''"
    "stocks (example_validation_env v) \<noteq> []" for v
    by (simp_all add: example_validation_env_def example_stocks_def)
  have v1: "valid (harvest (completed (example_validation_env [True, True, False]))
               (interrupted_after (example_validation_env [True, True, False])))
      = [result_of \<lparr>symbol = ''RELIANCE'', isin = ''INE002A01018''\<rparr> None,
         result_of \<lparr>symbol = ''TCS'', isin = ''INE467B01029''\<rparr> None]"
    by (simp add: example_validation_env_def example_stocks_def harvest_def harvest_one_def)
  have v2: "valid (harvest (completed (example_validation_env [False, False, False]))
               (interrupted_after (example_validation_env [False, False, False]))) = []"
    by (simp add: example_validation_env_def example_stocks_def harvest_def harvest_one_def)
  have o: "open_ok (example_validation_env v)" "remove_ok (example_validation_env v)"
    "valid_stock_list_file (example_validation_env v) = ''valid_stock_list.csv''" for v
    by (simp_all add: example_validation_env_def)
  from valid_list_is_saved [OF h, of "[True, True, False]" "\<lambda>p. None"]
  have 1: "fst (run_validation (example_validation_env [True, True, False]) (\<lambda>p. None)) ''valid_stock_list.csv''
     = Some [[''symbol'', ''isin''], [''RELIANCE'', ''INE002A01018''], [''TCS'', ''INE467B01029'']]"
    by (simp add: Let_def v1 o result_of_def)
  from valid_list_is_saved [OF h, of "[False, False, False]"
      "\<lambda>p. if p = ''valid_stock_list.csv'' then Some [[''symbol'', ''isin'']] else None"]
  have 2: "fst (run_validation (example_validation_env [False, False, False])
            (\<lambda>p. if p = ''valid_stock_list.csv'' then Some [[''symbol'', ''isin'']] else None))
         ''valid_stock_list.csv'' = None"
    by (simp add: Let_def v2 o)
  from 1 2 show ?thesis by (rule conjI)
qed

subsection \<open>Chunks of the invalid list\<close>

lemma description_invalid_embed [simp]: "description (invalid_embed n tp p c) = c"
  by (simp add: invalid_embed_def)

lemma invalid_loop_step:
  "invalid_loop n tp i (s # rest) embeds cur part =
     (if flush_now cur (invalid_line i s)
      then invalid_loop n tp (Suc i) rest (embeds @ [invalid_embed n tp part cur])
             (invalid_line i s) (part + 1)
      else invalid_loop n tp (Suc i) rest embeds (cur @ invalid_line i s) part)"
  by (simp add: Let_def flush_now_def)

lemma chunk_lines_step:
  "chunk_lines (l # ls) cur =
     (if flush_now (concat cur) l then cur # chunk_lines ls [l] else chunk_lines ls (cur @ [l]))"
  unfolding flush_now_def by (rule chunk_lines.simps)

lemma loop_descriptions:
  "map description
     (case invalid_loop n tp i rest embeds (concat cur) part of
        (es, c, p) \<Rightarrow> if c \<noteq> [] then es @ [invalid_embed n tp p c] else es)
   = map description embeds @ map concat (chunk_lines (lines_from i rest) cur)"
proof (induction rest arbitrary: i embeds cur part)
  case Nil
  then show ?case by simp
next
  case (Cons s rest)
  show ?case
  proof (cases "flush_now (concat cur) (invalid_line i s)")
    case True
    then show ?thesis
      using Cons.IH [of "Suc i" "embeds @ [invalid_embed n tp part (concat cur)]" "[invalid_line i s]" "part + 1"]
      by (simp add: invalid_loop_step chunk_lines_step del: invalid_loop.simps chunk_lines.simps)
  next
    case False
    then show ?thesis
      using Cons.IH [of "Suc i" embeds "cur @ [invalid_line i s]" part]
      by (simp add: invalid_loop_step chunk_lines_step del: invalid_loop.simps chunk_lines.simps)
  qed
qed

lemma invalid_embeds_descriptions:
  "map description (invalid_embeds bad) = map concat (chunk_lines (lines_from 0 bad) [])"
proof (cases "bad = []")
  case True
  then show ?thesis by (simp add: invalid_embeds_def)
next
  case False
  then show ?thesis
    using loop_descriptions [of "length bad" "(length bad + MAX_LINES_PER_DESC - 1) div MAX_LINES_PER_DESC"
        0 bad "[]" "[]" 1]
    by (simp add: invalid_embeds_def Let_def del: One_nat_def)
qed

lemma count_newline_ge_length:
  "\<forall>l \<in> set ls. newline \<in> set l \<Longrightarrow> length ls \<le> count_list (concat ls) newline"
proof (induction ls)
  case Nil
  then show ?case by simp
next
  case (Cons l ls)
  then have "count_list l newline \<noteq> 0" by (simp add: count_list_0_iff)
  then have "0 < count_list l newline" by simp
  with Cons show ?case by simp
qed

lemma concat_nonempty:
  "\<forall>l \<in> set ls. newline \<in> set l \<Longrightarrow> (concat ls \<noteq> []) = (ls \<noteq> [])"
  by (cases ls) auto

lemma chunk_lines_ok:
  assumes "\<forall>l \<in> set cur \<union> set ls. newline \<in> set l" and "cur = [] \<or> chunk_ok cur"
  shows "(\<forall>c \<in> set (chunk_lines ls cur). chunk_ok c) \<and> concat (chunk_lines ls cur) = cur @ ls"
  using assms
proof (induction ls arbitrary: cur)
  case Nil
  then have "(concat cur \<noteq> []) = (cur \<noteq> [])" by (intro concat_nonempty) simp
  with Nil.prems(2) show ?case by (cases "cur = []") simp_all
next
  case (Cons l ls)
  from Cons.prems have nl: "\<forall>x \<in> set cur. newline \<in> set x" and l: "newline \<in> set l"
    and rest: "\<forall>x \<in> set ls. newline \<in> set x"
    by auto
  have ne: "(concat cur \<noteq> []) = (cur \<noteq> [])" using nl by (rule concat_nonempty)
  have cnt: "length cur \<le> count_list (concat cur) newline" using nl by (rule count_newline_ge_length)
  show ?case
  proof (cases "flush_now (concat cur) l")
    case True
    then have "cur \<noteq> []" using ne by (auto simp: flush_now_def MAX_LINES_PER_DESC_def)
    with Cons.prems(2) have ok: "chunk_ok cur" by simp
    have "chunk_ok [l]" by (simp add: chunk_ok_def MAX_LINES_PER_DESC_def)
    with l rest have "(\<forall>c \<in> set (chunk_lines ls [l]). chunk_ok c) \<and> concat (chunk_lines ls [l]) = [l] @ ls"
      by (intro Cons.IH) auto
    with True ok show ?thesis by (simp add: chunk_lines_step del: chunk_lines.simps)
  next
    case False
    then have small: "cur = [] \<or> length (concat cur) + length l \<le> MAX_CHARS_PER_DESC"
      and few: "count_list (concat cur) newline < MAX_LINES_PER_DESC"
      using ne by (auto simp: flush_now_def)
    from few cnt have "length (cur @ [l]) \<le> MAX_LINES_PER_DESC" by simp
    with small have "chunk_ok (cur @ [l])" by (auto simp: chunk_ok_def)
    with nl l rest have "(\<forall>c \<in> set (chunk_lines ls (cur @ [l])). chunk_ok c)
        \<and> concat (chunk_lines ls (cur @ [l])) = (cur @ [l]) @ ls"
      by (intro Cons.IH) auto
    with False show ?thesis by (simp add: chunk_lines_step del: chunk_lines.simps)
  qed
qed

lemma lines_from_newline: "\<forall>l \<in> set (lines_from i bad). newline \<in> set l"
  by (induction bad arbitrary: i) (auto simp: invalid_line_def)

lemma slices_concat:
  "concat (map (\<lambda>i. take k (drop (i * k) xs)) [0..<m]) = take (m * k) xs"
proof (induction m)
  case 0
  then show ?case by simp
next
  case (Suc m)
  have "take (m * k) xs @ take k (drop (m * k) xs) = take (m * k + k) xs"
    by (simp add: take_add)
  with Suc show ?case by (simp add: add.commute)
qed

lemma concat_nonempty_slices: "concat (filter (\<lambda>c. c \<noteq> []) xss) = concat xss"
  by (induction xss) auto

lemma message_batches_concat: "concat (message_batches es) = es"
proof -
  have "length es \<le> ((length es + 10 - 1) div 10) * 10" by simp
  then show ?thesis
    by (simp add: message_batches_def Let_def concat_nonempty_slices slices_concat)
qed

lemma message_batches_size: "\<forall>b \<in> set (message_batches es). length b \<le> 10"
  by (auto simp: message_batches_def Let_def)

subsection \<open>Budgets of the notification\<close>

lemma digit_char_not_newline: "d < 10 \<Longrightarrow> digit_char d \<noteq> newline"
proof
  assume d: "d < 10" and "digit_char d = newline"
  then have "(of_char (digit_char d) :: nat) = of_char newline" by simp
  with d show False by (simp add: digit_char_def newline_def)
qed

lemma str_nat_no_newline: "newline \<notin> set (str_nat n)"
proof (induction n rule: str_nat.induct)
  case (1 n)
  show ?case
  proof (cases "n < 10")
    case True
    then show ?thesis
      using digit_char_not_newline [of n] by (subst str_nat.simps) auto
  next
    case False
    then have "newline \<notin> set (str_nat (n div 10))" by (rule "1.IH")
    moreover have "digit_char (n mod 10) \<noteq> newline" by (rule digit_char_not_newline) simp
    ultimately show ?thesis using False by (subst str_nat.simps) auto
  qed
qed

lemma invalid_line_one_newline:
  "newline \<notin> set (symbol s) \<Longrightarrow> newline \<notin> set (isin s) \<Longrightarrow>
   count_list (invalid_line i s) newline = 1"
  using str_nat_no_newline [of "i + 1"]
  by (simp add: invalid_line_def count_list_0_iff newline_def)

lemma lines_from_one_newline:
  "\<forall>s \<in> set bad. newline \<notin> set (symbol s) \<and> newline \<notin> set (isin s) \<Longrightarrow>
   \<forall>l \<in> set (lines_from i bad). count_list l newline = 1"
  by (induction bad arbitrary: i) (auto simp: invalid_line_one_newline)

lemma count_concat_ones:
  "\<forall>l \<in> set c. count_list l newline = 1 \<Longrightarrow> count_list (concat c) newline = length c"
  by (induction c) auto

lemma invalid_chunks:
  "(\<forall>c \<in> set (chunk_lines (lines_from 0 bad) []). chunk_ok c)
   \<and> concat (chunk_lines (lines_from 0 bad) []) = lines_from 0 bad"
  using chunk_lines_ok [of "[]" "lines_from 0 bad"] lines_from_newline [of 0 bad] by simp

lemma count_list_replicate_same: "count_list (replicate n x) x = n"
  by (induction n) auto

lemma chunk_lines_head:
  "\<forall>l \<in> set cur \<union> set ls. newline \<in> set l \<Longrightarrow> cur \<noteq> [] \<Longrightarrow>
   \<exists>r rest. chunk_lines ls cur = (cur @ r) # rest"
proof (induction ls arbitrary: cur)
  case Nil
  then have "concat cur \<noteq> []" using concat_nonempty [of cur] by simp
  then show ?case by simp
next
  case (Cons l ls)
  show ?case
  proof (cases "flush_now (concat cur) l")
    case True
    then show ?thesis by (simp add: chunk_lines_step del: chunk_lines.simps)
  next
    case False
    from Cons.prems have "\<exists>r rest. chunk_lines ls (cur @ [l]) = ((cur @ [l]) @ r) # rest"
      by (intro Cons.IH) auto
    with False show ?thesis by (auto simp add: chunk_lines_step simp del: chunk_lines.simps)
  qed
qed

lemma chunk_lines_policy:
  assumes "\<forall>l \<in> set cur \<union> set ls. newline \<in> set l"
    and "\<forall>p l q. cur = p @ l # q \<and> p \<noteq> [] \<longrightarrow> \<not> flush_now (concat p) l"
  shows "(\<forall>c \<in> set (chunk_lines ls cur).
            \<forall>p l q. c = p @ l # q \<and> p \<noteq> [] \<longrightarrow> \<not> flush_now (concat p) l)
     \<and> (\<forall>pre c l r post. chunk_lines ls cur = pre @ c # (l # r) # post
            \<longrightarrow> flush_now (concat c) l)"
  using assms
proof (induction ls arbitrary: cur)
  case Nil
  have "[cur] \<noteq> pre @ c # d # post" for pre c d post
    by (cases pre) auto
  with Nil.prems(2) show ?case by auto
next
  case (Cons l ls)
  show ?case
  proof (cases "flush_now (concat cur) l")
    case True
    have step: "chunk_lines (l # ls) cur = cur # chunk_lines ls [l]"
      using True by (simp add: chunk_lines_step del: chunk_lines.simps)
    have inner: "\<forall>p l' q. [l] = p @ l' # q \<and> p \<noteq> [] \<longrightarrow> \<not> flush_now (concat p) l'"
      by (auto simp: Cons_eq_append_conv)
    from Cons.prems(1) have nl: "\<forall>x \<in> set [l] \<union> set ls. newline \<in> set x" by auto
    note IH = Cons.IH [OF nl inner]
    from chunk_lines_head [OF nl] obtain r0 rest0 where
      hd: "chunk_lines ls [l] = ([l] @ r0) # rest0" by blast
    have 1: "\<forall>c \<in> set (chunk_lines (l # ls) cur).
            \<forall>p l q. c = p @ l # q \<and> p \<noteq> [] \<longrightarrow> \<not> flush_now (concat p) l"
      unfolding step using Cons.prems(2) IH by auto
    have 2: "flush_now (concat c) l'"
      if eq: "chunk_lines (l # ls) cur = pre @ c # (l' # r) # post" for pre c l' r post
    proof (cases pre)
      case Nil
      with eq step have "c = cur" "chunk_lines ls [l] = (l' # r) # post" by simp_all
      with hd have "l' = l" by simp
      with True \<open>c = cur\<close> show ?thesis by simp
    next
      case (Cons x pre')
      with eq step have "chunk_lines ls [l] = pre' @ c # (l' # r) # post" by simp
      with IH show ?thesis by blast
    qed
    from 1 2 show ?thesis by blast
  next
    case False
    have step: "chunk_lines (l # ls) cur = chunk_lines ls (cur @ [l])"
      using False by (simp add: chunk_lines_step del: chunk_lines.simps)
    have inner: "\<forall>p l' q. cur @ [l] = p @ l' # q \<and> p \<noteq> [] \<longrightarrow> \<not> flush_now (concat p) l'"
    proof (intro allI impI)
      fix p l' q assume a: "cur @ [l] = p @ l' # q \<and> p \<noteq> []"
      show "\<not> flush_now (concat p) l'"
      proof (cases q rule: rev_cases)
        case Nil
        with a have "cur = p" "l = l'" by simp_all
        with False show ?thesis by simp
      next
        case (snoc q' x)
        with a have "cur @ [l] = (p @ l' # q') @ [x]" by simp
        then have "cur = p @ l' # q'" by (simp only: append1_eq_conv)
        with a Cons.prems(2) show ?thesis by blast
      qed
    qed
    from Cons.prems(1) have nl: "\<forall>x \<in> set (cur @ [l]) \<union> set ls. newline \<in> set x" by auto
    from Cons.IH [OF nl inner] show ?thesis unfolding step .
  qed
qed

lemma invalid_chunks_policy:
  "(\<forall>c \<in> set (chunk_lines (lines_from 0 bad) []).
      \<forall>p l q. c = p @ l # q \<and> p \<noteq> [] \<longrightarrow> \<not> flush_now (concat p) l)
   \<and> (\<forall>pre c l r post. chunk_lines (lines_from 0 bad) [] = pre @ c # (l # r) # post
          \<longrightarrow> flush_now (concat c) l)"
  using chunk_lines_policy [of "[]" "lines_from 0 bad"] lines_from_newline [of 0 bad] by simp

lemma invalid_line_newlines:
  "count_list (invalid_line i s) newline
     = count_list (symbol s) newline + count_list (isin s) newline + 1"
  using str_nat_no_newline [of "i + 1"]
  by (simp add: invalid_line_def count_list_0_iff newline_def)

lemma single_invalid_embed: "invalid_embeds [s] = [invalid_embed 1 1 1 (invalid_line 0 s)]"
  by (simp add: invalid_embeds_def Let_def MAX_LINES_PER_DESC_def invalid_line_def)

text \<open>
  C5 as stated fails. One invalid entry whose line is longer than the character budget is
  put into an embed of its own, whose description exceeds 3800 characters. And the line
  budget is counted in entries only as long as no entry holds a line feed: one entry whose
  symbol holds 45 line feeds gives a description of 46 lines.
\<close>

theorem description_budget_counterexample:
  "map (\<lambda>e. length (description e)) (invalid_embeds [long_entry]) = [3819]
   \<and> MAX_CHARS_PER_DESC < 3819
   \<and> map (\<lambda>e. count_list (description e) newline) (invalid_embeds [multiline_entry]) = [46]
   \<and> MAX_LINES_PER_DESC < 46"
proof -
  have 1: "map (\<lambda>e. length (description e)) (invalid_embeds [long_entry]) = [3819]"
    by (simp add: invalid_embeds_def long_entry_def result_of_def invalid_line_def
      invalid_embed_def MAX_CHARS_PER_DESC_def MAX_LINES_PER_DESC_def Let_def str_nat.simps)
  have "count_list (invalid_line 0 multiline_entry) newline = 46"
    unfolding invalid_line_newlines
    by (simp add: multiline_entry_def result_of_def count_list_replicate_same)
       (simp add: newline_def)
  then have 2: "map (\<lambda>e. count_list (description e) newline) (invalid_embeds [multiline_entry]) = [46]"
    by (simp add: single_invalid_embed)
  from 1 2 show ?thesis
    by (simp add: MAX_CHARS_PER_DESC_def MAX_LINES_PER_DESC_def)
qed

text \<open>
  C5, amended. The descriptions of the invalid-list embeds are the lines of the list, in
  order, cut into chunks of at most 45 entries; a chunk is at most 3800 characters long
  unless it is a single entry (the loop never emits an empty chunk, so a line longer than
  the budget goes out alone). The cut is greedy: a line joins a chunk that is not empty
  only if the chunk then has at most 3800 characters and had fewer than 45 line feeds
  before, and a chunk is closed only when the next line would take it over 3800 characters
  or when it already holds 45 line feeds. When no symbol or ISIN contains a line feed, no
  description has more than 45 lines. The summary embed and the chunks are posted in
  order, at most ten embeds per request.
\<close>

theorem invalid_list_chunks:
  "(let chunks = chunk_lines (lines_from 0 bad) [] in
      map description (invalid_embeds bad) = map concat chunks
      \<and> concat chunks = lines_from 0 bad
      \<and> (\<forall>c \<in> set chunks. c \<noteq> [] \<and> length c \<le> 45
             \<and> (length (concat c) \<le> 3800 \<or> length c = 1))
      \<and> (\<forall>c \<in> set chunks. \<forall>p l q. c = p @ l # q \<and> p \<noteq> []
             \<longrightarrow> length (concat p) + length l \<le> 3800 \<and> count_list (concat p) newline < 45)
      \<and> (\<forall>pre c l r post. chunks = pre @ c # (l # r) # post
             \<longrightarrow> 3800 < length (concat c) + length l \<or> 45 \<le> count_list (concat c) newline))
   \<and> ((\<forall>s \<in> set bad. newline \<notin> set (symbol s) \<and> newline \<notin> set (isin s))
        \<longrightarrow> (\<forall>e \<in> set (invalid_embeds bad). count_list (description e) newline \<le> 45))
   \<and> (\<forall>p \<in> set (send_stocklist_to_discord good bad n ft url). length (snd p) \<le> 10)
   \<and> (url \<noteq> [] \<longrightarrow>
        concat (map snd (send_stocklist_to_discord good bad n ft url))
          = summary_embed good bad n ft # invalid_embeds bad)"
proof -
  define chunks where "chunks = chunk_lines (lines_from 0 bad) []"
  have ok: "\<forall>c \<in> set chunks. chunk_ok c" and cc: "concat chunks = lines_from 0 bad"
    using invalid_chunks [of bad] by (simp_all add: chunks_def)
  have inner: "\<forall>c \<in> set chunks. \<forall>p l q. c = p @ l # q \<and> p \<noteq> [] \<longrightarrow> \<not> flush_now (concat p) l"
    and adj: "\<forall>pre c l r post. chunks = pre @ c # (l # r) # post \<longrightarrow> flush_now (concat c) l"
    using invalid_chunks_policy [of bad] by (simp_all add: chunks_def)
  have nl: "newline \<in> set l" if "c \<in> set chunks" "l \<in> set c" for c l
  proof -
    from that have "l \<in> set (concat chunks)" by auto
    then show ?thesis using lines_from_newline [of 0 bad] by (simp add: cc)
  qed
  have 1: "map description (invalid_embeds bad) = map concat chunks"
    unfolding chunks_def by (rule invalid_embeds_descriptions)
  have 3: "\<forall>c \<in> set chunks. c \<noteq> [] \<and> length c \<le> 45
             \<and> (length (concat c) \<le> 3800 \<or> length c = 1)"
    using ok by (simp add: chunk_ok_def MAX_CHARS_PER_DESC_def MAX_LINES_PER_DESC_def)
  have 4: "\<forall>c \<in> set chunks. \<forall>p l q. c = p @ l # q \<and> p \<noteq> []
             \<longrightarrow> length (concat p) + length l \<le> 3800 \<and> count_list (concat p) newline < 45"
  proof (intro ballI allI impI)
    fix c p l q assume c: "c \<in> set chunks" and d: "c = p @ l # q \<and> p \<noteq> []"
    with inner have nf: "\<not> flush_now (concat p) l" by blast
    from c d have "\<forall>x \<in> set p. newline \<in> set x" using nl [of c] by auto
    then have "(concat p \<noteq> []) = (p \<noteq> [])" by (rule concat_nonempty)
    with d have "concat p \<noteq> []" by simp
    with nf show "length (concat p) + length l \<le> 3800 \<and> count_list (concat p) newline < 45"
      by (auto simp: flush_now_def MAX_CHARS_PER_DESC_def MAX_LINES_PER_DESC_def)
  qed
  have 5: "\<forall>pre c l r post. chunks = pre @ c # (l # r) # post
             \<longrightarrow> 3800 < length (concat c) + length l \<or> 45 \<le> count_list (concat c) newline"
  proof (intro allI impI)
    fix pre c l r post assume "chunks = pre @ c # (l # r) # post"
    with adj have "flush_now (concat c) l" by blast
    then show "3800 < length (concat c) + length l \<or> 45 \<le> count_list (concat c) newline"
      by (auto simp: flush_now_def MAX_CHARS_PER_DESC_def MAX_LINES_PER_DESC_def)
  qed
  have 6: "\<forall>e \<in> set (invalid_embeds bad). count_list (description e) newline \<le> 45"
    if plain: "\<forall>s \<in> set bad. newline \<notin> set (symbol s) \<and> newline \<notin> set (isin s)"
  proof
    fix e assume "e \<in> set (invalid_embeds bad)"
    then have "description e \<in> set (map description (invalid_embeds bad))" by simp
    then obtain c where c: "c \<in> set chunks" "description e = concat c"
      unfolding 1 by auto
    then have "set c \<subseteq> set (lines_from 0 bad)"
      using cc by (metis Sup_upper image_eqI set_concat)
    then have "\<forall>l \<in> set c. count_list l newline = 1"
      using lines_from_one_newline [OF plain, of 0] by blast
    then have "count_list (concat c) newline = length c" by (rule count_concat_ones)
    with c ok show "count_list (description e) newline \<le> 45"
      by (simp add: chunk_ok_def MAX_LINES_PER_DESC_def)
  qed
  have 7: "\<forall>p \<in> set (send_stocklist_to_discord good bad n ft url). length (snd p) \<le> 10"
    using message_batches_size by (auto simp: send_stocklist_to_discord_def)
  have 8: "concat (map snd (send_stocklist_to_discord good bad n ft url))
          = summary_embed good bad n ft # invalid_embeds bad" if "url \<noteq> []"
    using that by (simp add: send_stocklist_to_discord_def comp_def message_batches_concat)
  from 1 cc 3 4 5 have "let chunks = chunk_lines (lines_from 0 bad) [] in
      map description (invalid_embeds bad) = map concat chunks
      \<and> concat chunks = lines_from 0 bad
      \<and> (\<forall>c \<in> set chunks. c \<noteq> [] \<and> length c \<le> 45
             \<and> (length (concat c) \<le> 3800 \<or> length c = 1))
      \<and> (\<forall>c \<in> set chunks. \<forall>p l q. c = p @ l # q \<and> p \<noteq> []
             \<longrightarrow> length (concat p) + length l \<le> 3800 \<and> count_list (concat p) newline < 45)
      \<and> (\<forall>pre c l r post. chunks = pre @ c # (l # r) # post
             \<longrightarrow> 3800 < length (concat c) + length l \<or> 45 \<le> count_list (concat c) newline)"
    unfolding Let_def chunks_def by (intro conjI)
  with 6 7 8 show ?thesis by (intro conjI impI)
qed

theorem invalid_list_chunks_witness:
  "chunk_lines (lines_from 0 long_entries) []
     = [take 2 (lines_from 0 long_entries), drop 2 (lines_from 0 long_entries)]
   \<and> map (\<lambda>e. length (description e)) (invalid_embeds long_entries) = [2038, 2019]
   \<and> (length (concat (take 1 (lines_from 0 long_entries))) + length (lines_from 0 long_entries ! 1)
         \<le> 3800
        \<and> count_list (concat (take 1 (lines_from 0 long_entries))) newline < 45)
   \<and> (3800 < length (concat (take 2 (lines_from 0 long_entries))) + length (lines_from 0 long_entries ! 2)
        \<or> 45 \<le> count_list (concat (take 2 (lines_from 0 long_entries))) newline)
   \<and> list_all (\<lambda>e. count_list (description e) newline \<le> 45) (invalid_embeds long_entries)
   \<and> list_all (\<lambda>p. length (snd p) \<le> 10)
        (send_stocklist_to_discord [] long_entries 3
           ''Took 1.00 seconds'' ''https://discord.example/webhook'')
   \<and> concat (map snd (send_stocklist_to_discord [] long_entries 3
           ''Took 1.00 seconds'' ''https://discord.example/webhook''))
       = summary_embed [] long_entries 3 ''Took 1.00 seconds'' # invalid_embeds long_entries"
proof -
  define l1 where "l1 = invalid_line 0 (long_entries ! 0)"
  define l2 where "l2 = invalid_line 1 (long_entries ! 1)"
  define l3 where "l3 = invalid_line 2 (long_entries ! 2)"
  have L: "lines_from 0 long_entries = [l1, l2, l3]"
    by (simp add: long_entries_def l1_def l2_def l3_def numeral_2_eq_2)
  have len: "length l1 = 1019" "length l2 = 1019" "length l3 = 2019"
    by (simp_all add: l1_def l2_def l3_def long_entries_def result_of_def invalid_line_def
        str_nat.simps)
  have cnt: "count_list l1 newline = 1" "count_list l2 newline = 1" "count_list l3 newline = 1"
    unfolding l1_def l2_def l3_def
    by (rule invalid_line_one_newline; simp add: long_entries_def result_of_def newline_def)+
  have ne: "l1 \<noteq> []" "l2 \<noteq> []" "l3 \<noteq> []"
    using len by auto
  have ch: "chunk_lines [l1, l2, l3] [] = [[l1, l2], [l3]]"
    by (simp add: len cnt ne MAX_CHARS_PER_DESC_def MAX_LINES_PER_DESC_def)
  have plain: "\<forall>s \<in> set long_entries. newline \<notin> set (symbol s) \<and> newline \<notin> set (isin s)"
    by (simp add: long_entries_def result_of_def newline_def)
  have url: "''https://discord.example/webhook'' \<noteq> []" by simp
  note T = invalid_list_chunks [of long_entries "[]" 3 "''Took 1.00 seconds''"
      "''https://discord.example/webhook''", unfolded Let_def L ch]
  from T have d: "map description (invalid_embeds long_entries) = map concat [[l1, l2], [l3]]"
    by (rule conjunct1 [OF conjunct1])
  have "map (\<lambda>e. length (description e)) (invalid_embeds long_entries)
      = map length (map description (invalid_embeds long_entries))"
    by simp
  then have 2: "map (\<lambda>e. length (description e)) (invalid_embeds long_entries) = [2038, 2019]"
    unfolding d by (simp add: len)
  from T have "\<forall>c \<in> set [[l1, l2], [l3]]. \<forall>p l q. c = p @ l # q \<and> p \<noteq> []
             \<longrightarrow> length (concat p) + length l \<le> 3800 \<and> count_list (concat p) newline < 45"
    by blast
  then have "[l1, l2] = [l1] @ l2 # [] \<and> [l1] \<noteq> []
      \<longrightarrow> length (concat [l1]) + length l2 \<le> 3800 \<and> count_list (concat [l1]) newline < 45"
    by (simp only: list.set insert_iff ball_simps) blast
  then have 3: "length (concat [l1]) + length l2 \<le> 3800 \<and> count_list (concat [l1]) newline < 45"
    by simp
  from T have "\<forall>pre c l r post. [[l1, l2], [l3]] = pre @ c # (l # r) # post
             \<longrightarrow> 3800 < length (concat c) + length l \<or> 45 \<le> count_list (concat c) newline"
    by blast
  then have "[[l1, l2], [l3]] = [] @ [l1, l2] # (l3 # []) # []
      \<longrightarrow> 3800 < length (concat [l1, l2]) + length l3 \<or> 45 \<le> count_list (concat [l1, l2]) newline"
    by blast
  then have 4: "3800 < length (concat [l1, l2]) + length l3
      \<or> 45 \<le> count_list (concat [l1, l2]) newline"
    by simp
  from T [THEN conjunct2, THEN conjunct1] plain
  have "\<forall>e \<in> set (invalid_embeds long_entries). count_list (description e) newline \<le> 45"
    by (rule mp)
  then have 5: "list_all (\<lambda>e. count_list (description e) newline \<le> 45) (invalid_embeds long_entries)"
    by (simp add: list_all_iff)
  from T [THEN conjunct2, THEN conjunct2, THEN conjunct1]
  have 6: "list_all (\<lambda>p. length (snd p) \<le> 10)
        (send_stocklist_to_discord [] long_entries 3
           ''Took 1.00 seconds'' ''https://discord.example/webhook'')"
    by (simp add: list_all_iff)
  from T [THEN conjunct2, THEN conjunct2, THEN conjunct2] url
  have 7: "concat (map snd (send_stocklist_to_discord [] long_entries 3
           ''Took 1.00 seconds'' ''https://discord.example/webhook''))
       = summary_embed [] long_entries 3 ''Took 1.00 seconds'' # invalid_embeds long_entries"
    by (rule mp)
  have 1: "chunk_lines (lines_from 0 long_entries) []
     = [take 2 (lines_from 0 long_entries), drop 2 (lines_from 0 long_entries)]"
    unfolding L ch by simp
  have t: "take 1 (lines_from 0 long_entries) = [l1]" "lines_from 0 long_entries ! 1 = l2"
    "take 2 (lines_from 0 long_entries) = [l1, l2]" "lines_from 0 long_entries ! 2 = l3"
    unfolding L by simp_all
  have inner: "length (concat (take 1 (lines_from 0 long_entries))) + length (lines_from 0 long_entries ! 1)
         \<le> 3800
        \<and> count_list (concat (take 1 (lines_from 0 long_entries))) newline < 45"
    unfolding t by (rule 3)
  have adj: "3800 < length (concat (take 2 (lines_from 0 long_entries))) + length (lines_from 0 long_entries ! 2)
        \<or> 45 \<le> count_list (concat (take 2 (lines_from 0 long_entries))) newline"
    unfolding t by (rule 4)
  show ?thesis
    using 1 2 inner adj 5 6 7 by blast
qed

end
